theory Spec2Isabelle
  imports Complex_Main "HOL-Library.Monad_Syntax"
begin

section \<open>Device memory and launch geometry\<close>

text \<open>
  A buffer of \<open>float\<close> is a list of its elements. The element type \<open>'a\<close> only carries the
  operations \<open>0\<close>, \<open>+\<close> and \<open>*\<close> (and, for the driver, \<open>-\<close>, \<open>/\<close>, \<open>abs\<close> and \<open><\<close>): no algebraic
  law is assumed of them, so everything proved for \<open>'a\<close> holds of IEEE arithmetic as of any
  other interpretation. An access outside a buffer is undefined behaviour of the program;
  it is the value \<open>None\<close> of the model.
\<close>

definition ld :: "'a list \<Rightarrow> nat \<Rightarrow> 'a option" where
  "ld buf i = (if i < length buf then Some (buf ! i) else None)"

definition st :: "'a list \<Rightarrow> nat \<Rightarrow> 'a \<Rightarrow> 'a list option" where
  "st buf i v = (if i < length buf then Some (buf[i := v]) else None)"

text \<open>
  A \<open>dim3\<close> or \<open>uint3\<close> value is used through its \<open>x\<close> and \<open>y\<close> fields only: it is the
  pair \<open>(x, y)\<close>. A launch fixes the template argument \<open>BLOCK_SIZE\<close>, the execution
  configuration and the two scalar arguments of the kernel.
\<close>

type_synonym idx2 = "nat \<times> nat"

record launch =
  BLOCK_SIZE :: nat
  blockDim :: idx2
  gridDim :: idx2
  wA :: nat
  wB :: nat

section \<open>The kernel \<open>MatrixMulCUDA\<close>\<close>

text \<open>Lines 52 and 53: the row and the column of thread \<open>t\<close> of block \<open>b\<close>.\<close>

definition row :: "launch \<Rightarrow> idx2 \<Rightarrow> idx2 \<Rightarrow> nat" where
  "row cfg b t = snd b * snd (blockDim cfg) + snd t"

definition col :: "launch \<Rightarrow> idx2 \<Rightarrow> idx2 \<Rightarrow> nat" where
  "col cfg b t = fst b * fst (blockDim cfg) + fst t"

text \<open>The three subscripts of global memory, lines 59, 60 and 67, as written.\<close>

definition A_index :: "launch \<Rightarrow> idx2 \<Rightarrow> nat \<Rightarrow> idx2 \<Rightarrow> nat" where
  "A_index cfg b m t = row cfg b t * wA cfg + m * BLOCK_SIZE cfg + fst t"

definition B_index :: "launch \<Rightarrow> idx2 \<Rightarrow> nat \<Rightarrow> idx2 \<Rightarrow> nat" where
  "B_index cfg b m t = (m * BLOCK_SIZE cfg + snd t) * wA cfg + col cfg b t"

definition C_index :: "launch \<Rightarrow> idx2 \<Rightarrow> idx2 \<Rightarrow> nat" where
  "C_index cfg b t = row cfg b t * wA cfg + col cfg b t"

definition block_threads :: "launch \<Rightarrow> idx2 list" where
  "block_threads cfg = List.product [0..<fst (blockDim cfg)] [0..<snd (blockDim cfg)]"

text \<open>
  A shared array \<open>float [BLOCK_SIZE][BLOCK_SIZE]\<close> maps the slot \<open>(i, j)\<close>, for the element
  \<open>[i][j]\<close>, to its content; a slot nobody has stored to holds nothing. Between the top of
  the loop body and the first \<open>__syncthreads()\<close> every thread \<open>(tx, ty)\<close> of the block stores
  the value it loaded into its own slot \<open>[tx][ty]\<close>, so after the barrier the array is the
  collection of these stores. A load outside the global buffer or a slot outside the
  array is undefined behaviour of the block.
\<close>

type_synonym 'a tile = "idx2 \<Rightarrow> 'a option"

definition stage :: "launch \<Rightarrow> (idx2 \<Rightarrow> 'a option) \<Rightarrow> 'a tile option" where
  "stage cfg f =
     (if list_all (\<lambda>t. fst t < BLOCK_SIZE cfg \<and> snd t < BLOCK_SIZE cfg \<and> f t \<noteq> None)
           (block_threads cfg)
      then Some (\<lambda>s. if s \<in> set (block_threads cfg) then f s else None)
      else None)"

text \<open>Lines 62 and 63: the inner loop of thread \<open>t\<close>, over \<open>k\<close>.\<close>

fun inner :: "'a tile \<Rightarrow> 'a tile \<Rightarrow> idx2 \<Rightarrow> nat list \<Rightarrow> 'a::{plus,times} \<Rightarrow> 'a option" where
  "inner Ads Bds t [] acc = Some acc"
| "inner Ads Bds t (k # ks) acc = do {
     a \<leftarrow> Ads (fst t, k);
     b \<leftarrow> Bds (k, snd t);
     inner Ads Bds t ks (acc + a * b) }"

text \<open>Lines 58 to 65: the loop over the tiles \<open>m\<close>, as thread \<open>t\<close> of block \<open>b\<close> sees it.\<close>

fun tile_loop ::
  "launch \<Rightarrow> 'a list \<Rightarrow> 'a list \<Rightarrow> idx2 \<Rightarrow> idx2 \<Rightarrow> nat list \<Rightarrow> 'a::{plus,times} \<Rightarrow> 'a option" where
  "tile_loop cfg A B b t [] acc = Some acc"
| "tile_loop cfg A B b t (m # ms) acc = do {
     Ads \<leftarrow> stage cfg (\<lambda>s. ld A (A_index cfg b m s));
     Bds \<leftarrow> stage cfg (\<lambda>s. ld B (B_index cfg b m s));
     acc' \<leftarrow> inner Ads Bds t [0..<BLOCK_SIZE cfg] acc;
     tile_loop cfg A B b t ms acc' }"

definition C_local :: "launch \<Rightarrow> 'a list \<Rightarrow> 'a list \<Rightarrow> idx2 \<Rightarrow> idx2 \<Rightarrow> 'a::{zero,plus,times} option" where
  "C_local cfg A B b t = tile_loop cfg A B b t [0..<wA cfg div BLOCK_SIZE cfg] 0"

text \<open>The kernel, run by thread \<open>snd bt\<close> of block \<open>fst bt\<close>: lines 54 to 67.\<close>

definition MatrixMulCUDA ::
  "launch \<Rightarrow> 'a list \<Rightarrow> 'a list \<Rightarrow> idx2 \<times> idx2 \<Rightarrow> 'a::{zero,plus,times} list \<Rightarrow> 'a list option" where
  "MatrixMulCUDA cfg A B bt C = do {
     v \<leftarrow> C_local cfg A B (fst bt) (snd bt);
     st C (C_index cfg (fst bt) (snd bt)) v }"

text \<open>
  A launch runs the kernel once for every thread of every block of the grid. The threads
  read \<open>A\<close> and \<open>B\<close> only, and each performs one store to \<open>C\<close>, its last action: a launch is
  determined by the order in which the threads perform that store, the schedule, which
  the hardware chooses.
\<close>

definition grid_threads :: "launch \<Rightarrow> (idx2 \<times> idx2) list" where
  "grid_threads cfg =
     List.product (List.product [0..<fst (gridDim cfg)] [0..<snd (gridDim cfg)])
       (block_threads cfg)"

definition schedule :: "launch \<Rightarrow> (idx2 \<times> idx2) list \<Rightarrow> bool" where
  "schedule cfg sched \<longleftrightarrow> distinct sched \<and> set sched = set (grid_threads cfg)"

fun kernel_launch ::
  "launch \<Rightarrow> 'a list \<Rightarrow> 'a list \<Rightarrow> (idx2 \<times> idx2) list \<Rightarrow> 'a::{zero,plus,times} list \<Rightarrow> 'a list option" where
  "kernel_launch cfg A B [] C = Some C"
| "kernel_launch cfg A B (bt # sched) C =
     (case MatrixMulCUDA cfg A B bt C of
        None \<Rightarrow> None
      | Some C' \<Rightarrow> kernel_launch cfg A B sched C')"

text \<open>
  What the specification asks of the kernel: the dot product of row \<open>r\<close> of \<open>A\<close> (of width
  \<open>n\<close>) and column \<open>c\<close> of \<open>B\<close> (of width \<open>w\<close>), both row-major.
\<close>

definition spec_dot :: "'a list \<Rightarrow> 'a list \<Rightarrow> nat \<Rightarrow> nat \<Rightarrow> nat \<Rightarrow> nat \<Rightarrow> 'a::{zero,plus,times}" where
  "spec_dot A B n w r c = foldl (\<lambda>acc k. acc + A ! (r * n + k) * B ! (k * w + c)) 0 [0..<n]"

text \<open>
  What a thread of the kernel accumulates, read off global memory: tile \<open>m\<close> ascending,
  then \<open>k\<close> ascending, the product of the value thread \<open>(tx, k)\<close> loaded from \<open>A\<close> and the
  value thread \<open>(k, ty)\<close> loaded from \<open>B\<close>.
\<close>

definition thread_sum :: "launch \<Rightarrow> 'a list \<Rightarrow> 'a list \<Rightarrow> idx2 \<Rightarrow> idx2 \<Rightarrow> 'a::{zero,plus,times}" where
  "thread_sum cfg A B b t =
     foldl (\<lambda>acc m.
        foldl (\<lambda>acc k. acc + A ! A_index cfg b m (fst t, k) * B ! B_index cfg b m (k, snd t))
          acc [0..<BLOCK_SIZE cfg])
       0 [0..<wA cfg div BLOCK_SIZE cfg]"

section \<open>The driver: \<open>ConstantInit\<close>, \<open>MatrixMultiply\<close> and \<open>main\<close>\<close>

text \<open>
  The driver is modelled by what it does to the outside: a run is the list of its events,
  in order, and either the value it continues with or the way it ends early. The six
  buffers are named after the pointers that hold them, the two timer events after theirs.
\<close>

datatype buffer = h_A | h_B | h_C | d_A | d_B | d_C

datatype timer = start | stop

text \<open>The runtime calls the driver wraps in \<open>checkCudaErrors\<close>, with their arguments.\<close>

datatype cuda_call =
    cudaMalloc buffer nat
  | cudaMemcpy buffer buffer nat
  | cudaEventCreate timer
  | cudaEventRecord timer
  | cudaEventSynchronize timer
  | cudaEventElapsedTime
  | cudaFree buffer

text \<open>
  \<open>Malloc b n ok\<close> is \<open>malloc\<close> of \<open>n\<close> bytes for \<open>b\<close>, \<open>ok\<close> telling whether the result is not
  \<open>NULL\<close>; \<open>Cuda call ok\<close> is a checked runtime call and whether it returned \<open>cudaSuccess\<close>;
  \<open>Launch cfg\<close> is one \<open>MatrixMulCUDA<BLOCK_SIZE> <<<grid, threads>>> (d_C, d_A, d_B, wA, wB)\<close>.
  \<open>PrintMismatch\<close> is the message of line 280 and \<open>PrintError i c r\<close> the one of line 205,
  with the index, the computed value and the reference value it prints; the other
  messages are \<open>Printf\<close> of their text (the numbers of the performance line are left out).
\<close>

datatype 'f event =
    Malloc buffer nat bool
  | Free buffer
  | Cuda cuda_call bool
  | Launch launch
  | DeviceSynchronize
  | FindCudaDevice
  | Printf string
  | PrintDims nat nat nat nat
  | PrintMismatch nat nat
  | PrintError nat 'f 'f

text \<open>
  A run ends early by \<open>exit(code)\<close> or by undefined behaviour: an access outside a buffer
  on the host or on the device, or a division by zero.
\<close>

datatype abort = Exited int | Undefined

abbreviation EXIT_SUCCESS :: int where "EXIT_SUCCESS \<equiv> 0"
abbreviation EXIT_FAILURE :: int where "EXIT_FAILURE \<equiv> 1"

text \<open>
  What the program does not decide is a parameter of the model: which allocations and
  runtime calls succeed, whether the runtime accepts an execution configuration
  (\<open>launchable\<close>; a refused launch runs no thread, and the driver does not ask), the order
  in which the threads of launch number \<open>j\<close> store (by ascending \<open>order\<close>), the content of fresh memory
  (\<open>uninit\<close>), and whether \<open>findCudaDevice\<close> of helper_cuda.h returns (\<open>None\<close>) or ends the
  process with a code. The \<open>float\<close> and \<open>double\<close> values are one type \<open>'f\<close>, whose operations
  are those of its type classes, with the constants \<open>0.01f\<close> (\<open>valB\<close>) and \<open>1.e-6\<close> (\<open>eps\<close>)
  and the conversion of an \<open>unsigned int\<close> (\<open>of_uint\<close>).
\<close>

record 'f env =
  malloc_ok :: "buffer \<Rightarrow> bool"
  cuda_ok :: "cuda_call \<Rightarrow> bool"
  launchable :: "launch \<Rightarrow> bool"
  order :: "nat \<Rightarrow> launch \<Rightarrow> idx2 \<times> idx2 \<Rightarrow> nat"
  uninit :: "buffer \<Rightarrow> nat \<Rightarrow> 'f"
  findCudaDevice :: "int option"
  valB :: 'f
  eps :: 'f
  of_uint :: "nat \<Rightarrow> 'f"

text \<open>
  \<open>unsigned int\<close> arithmetic wraps at \<open>2 ^ 32\<close>; \<open>to_int\<close> is the conversion to \<open>int\<close> of
  \<open>static_cast<int>\<close> and of an \<open>int\<close> parameter.
\<close>

definition u32 :: "nat \<Rightarrow> nat" where
  "u32 n = n mod 2 ^ 32"

definition to_int :: "nat \<Rightarrow> int" where
  "to_int n = (if u32 n < 2 ^ 31 then int (u32 n) else int (u32 n) - 2 ^ 32)"

text \<open>Sequencing: the events of both parts, unless the first part ends the run.\<close>

type_synonym ('f, 'a) run = "'f event list \<times> (abort + 'a)"

definition seq :: "('f, 'a) run \<Rightarrow> ('a \<Rightarrow> ('f, 'b) run) \<Rightarrow> ('f, 'b) run" where
  "seq p k =
     (case p of
        (tr, Inl out) \<Rightarrow> (tr, Inl out)
      | (tr, Inr a) \<Rightarrow> (case k a of (tr', r) \<Rightarrow> (tr @ tr', r)))"

text \<open>
  Modelled from the spec: \<open>checkCudaErrors\<close> is a macro of helper_cuda.h, which is not
  among the sources. By the specification a failed runtime call is fatal: it is reported
  and the process ends with the failure code.
\<close>

definition checkCudaErrors :: "'f env \<Rightarrow> cuda_call \<Rightarrow> ('f, unit) run" where
  "checkCudaErrors env call =
     (if cuda_ok env call then ([Cuda call True], Inr ())
      else ([Cuda call False, Printf ''CUDA error''], Inl (Exited EXIT_FAILURE)))"

fun checked :: "'f env \<Rightarrow> cuda_call list \<Rightarrow> ('f, unit) run" where
  "checked env [] = ([], Inr ())"
| "checked env (c # cs) = seq (checkCudaErrors env c) (\<lambda>_. checked env cs)"

text \<open>Lines 70 to 74: \<open>data[i] = val\<close> for \<open>i\<close> from 0 while \<open>i < size\<close>.\<close>

fun ConstantInit_loop :: "'f list \<Rightarrow> nat list \<Rightarrow> 'f \<Rightarrow> 'f list option" where
  "ConstantInit_loop data [] val = Some data"
| "ConstantInit_loop data (i # is) val =
     (case st data i val of None \<Rightarrow> None | Some data' \<Rightarrow> ConstantInit_loop data' is val)"

definition ConstantInit :: "'f list \<Rightarrow> int \<Rightarrow> 'f \<Rightarrow> 'f list option" where
  "ConstantInit data sz val = ConstantInit_loop data [0..<nat sz] val"

text \<open>
  A fresh buffer of \<open>bytes\<close> bytes holds \<open>bytes div sizeof(float)\<close> elements; a \<open>NULL\<close>
  pointer has no element that may be accessed. \<open>memcpy\<close> is the data movement of
  \<open>cudaMemcpy\<close>.
\<close>

definition fresh :: "'f env \<Rightarrow> buffer \<Rightarrow> nat \<Rightarrow> 'f list" where
  "fresh env buf bytes = map (uninit env buf) [0..<bytes div 4]"

definition malloc :: "'f env \<Rightarrow> buffer \<Rightarrow> nat \<Rightarrow> 'f list" where
  "malloc env buf bytes = (if malloc_ok env buf then fresh env buf bytes else [])"

definition memcpy :: "'f list \<Rightarrow> 'f list \<Rightarrow> nat \<Rightarrow> 'f list option" where
  "memcpy dst src bytes =
     (if bytes div 4 \<le> length src \<and> bytes div 4 \<le> length dst
      then Some (take (bytes div 4) src @ drop (bytes div 4) dst) else None)"

definition mem_size :: "nat \<Rightarrow> nat \<Rightarrow> nat" where
  "mem_size x y = u32 (4 * u32 (x * y))"

text \<open>
  Lines 82 to 106. The results of the first two \<open>malloc\<close> calls are not tested before
  \<open>ConstantInit\<close> writes through them; the third is.
\<close>

definition host_setup :: "'f::one env \<Rightarrow> idx2 \<Rightarrow> idx2 \<Rightarrow> ('f, 'f list \<times> 'f list) run" where
  "host_setup env dimsA dimsB =
     (let size_A = u32 (fst dimsA * snd dimsA);
          mem_size_A = u32 (4 * size_A);
          size_B = u32 (fst dimsB * snd dimsB);
          mem_size_B = u32 (4 * size_B);
          mem_size_C = mem_size (fst dimsB) (snd dimsA);
          allocAB = [Malloc h_A mem_size_A (malloc_ok env h_A),
                     Malloc h_B mem_size_B (malloc_ok env h_B)]
      in case ConstantInit (malloc env h_A mem_size_A) (to_int size_A) 1 of
           None \<Rightarrow> (allocAB, Inl Undefined)
         | Some hA \<Rightarrow>
        (case ConstantInit (malloc env h_B mem_size_B) (to_int size_B) (valB env) of
           None \<Rightarrow> (allocAB, Inl Undefined)
         | Some hB \<Rightarrow>
             if \<not> malloc_ok env h_C
             then (allocAB @ [Malloc h_C mem_size_C False,
                     Printf ''Failed to allocate host matrix C!''], Inl (Exited EXIT_FAILURE))
             else (allocAB @ [Malloc h_C mem_size_C True], Inr (hA, hB))))"

text \<open>Lines 108 to 117.\<close>

definition device_setup ::
  "'f env \<Rightarrow> idx2 \<Rightarrow> idx2 \<Rightarrow> 'f list \<times> 'f list \<Rightarrow> ('f, 'f list \<times> 'f list \<times> 'f list) run" where
  "device_setup env dimsA dimsB host =
     (let mem_size_A = mem_size (fst dimsA) (snd dimsA);
          mem_size_B = mem_size (fst dimsB) (snd dimsB);
          mem_size_C = mem_size (fst dimsB) (snd dimsA)
      in seq (checked env [cudaMalloc d_A mem_size_A, cudaMalloc d_B mem_size_B,
                           cudaMalloc d_C mem_size_C])
        (\<lambda>_. case memcpy (fresh env d_A mem_size_A) (fst host) mem_size_A of
            None \<Rightarrow> ([], Inl Undefined)
          | Some dA \<Rightarrow> seq (checkCudaErrors env (cudaMemcpy d_A h_A mem_size_A))
        (\<lambda>_. case memcpy (fresh env d_B mem_size_B) (snd host) mem_size_B of
            None \<Rightarrow> ([], Inl Undefined)
          | Some dB \<Rightarrow> seq (checkCudaErrors env (cudaMemcpy d_B h_B mem_size_B))
        (\<lambda>_. ([], Inr (dA, dB, fresh env d_C mem_size_C))))))"

text \<open>
  Lines 119 to 162. \<open>block_size\<close> is not negative here. A launch that the runtime
  refuses changes nothing.
\<close>

definition launch_config :: "nat \<Rightarrow> idx2 \<Rightarrow> idx2 \<Rightarrow> launch" where
  "launch_config block_size dimsA dimsB =
     \<lparr>BLOCK_SIZE = (if block_size = 16 then 16 else 32),
      blockDim = (block_size, block_size),
      gridDim = (fst dimsB div block_size, snd dimsA div block_size),
      wA = fst dimsA, wB = fst dimsB\<rparr>"

definition scheduled :: "'f env \<Rightarrow> nat \<Rightarrow> launch \<Rightarrow> (idx2 \<times> idx2) list" where
  "scheduled env j cfg = sort_key (order env j cfg) (grid_threads cfg)"

text \<open>
  The kernel takes the width of \<open>A\<close> as \<open>int wA\<close>: a width from \<open>2 ^ 31\<close> on arrives
  negative. Then \<open>wA / BLOCK_SIZE\<close> is not positive and the loop of line 58 is not entered:
  the thread loads nothing and stores its \<open>C_local = 0\<close> at \<open>C[row * wA + col]\<close>, the subscript
  computed in \<open>int\<close>. A product outside \<open>int\<close> is an overflow, and a subscript that is
  negative or not below the length of \<open>C\<close> is outside the buffer: both are undefined.
\<close>

definition MatrixMulCUDA_negative :: "launch \<Rightarrow> idx2 \<times> idx2 \<Rightarrow> 'a::zero list \<Rightarrow> 'a list option" where
  "MatrixMulCUDA_negative cfg bt C =
     (let p = to_int (row cfg (fst bt) (snd bt)) * to_int (wA cfg);
          i = p + to_int (col cfg (fst bt) (snd bt))
      in if - (2 ^ 31) \<le> p \<and> p < 2 ^ 31 \<and> 0 \<le> i \<and> i < 2 ^ 31 \<and> i < int (length C)
         then Some (C[nat i := 0]) else None)"

fun kernel_launch_negative ::
  "launch \<Rightarrow> (idx2 \<times> idx2) list \<Rightarrow> 'a::zero list \<Rightarrow> 'a list option" where
  "kernel_launch_negative cfg [] C = Some C"
| "kernel_launch_negative cfg (bt # sched) C =
     (case MatrixMulCUDA_negative cfg bt C of
        None \<Rightarrow> None
      | Some C' \<Rightarrow> kernel_launch_negative cfg sched C')"

definition invoke ::
  "'f::{zero,plus,times} env \<Rightarrow> launch \<Rightarrow> nat \<Rightarrow> 'f list \<Rightarrow> 'f list \<Rightarrow> 'f list \<Rightarrow> ('f, 'f list) run" where
  "invoke env cfg j dA dB dC =
     (if \<not> launchable env cfg then ([Launch cfg], Inr dC)
      else case (if 2 ^ 31 \<le> wA cfg
                 then kernel_launch_negative cfg (scheduled env j cfg) dC
                 else kernel_launch cfg dA dB (scheduled env j cfg) dC) of
             None \<Rightarrow> ([Launch cfg], Inl Undefined)
           | Some dC' \<Rightarrow> ([Launch cfg], Inr dC'))"

fun timed_loop ::
  "'f::{zero,plus,times} env \<Rightarrow> launch \<Rightarrow> nat list \<Rightarrow> 'f list \<Rightarrow> 'f list \<Rightarrow> 'f list \<Rightarrow> ('f, 'f list) run" where
  "timed_loop env cfg [] dA dB dC = ([], Inr dC)"
| "timed_loop env cfg (j # js) dA dB dC =
     seq (invoke env cfg (Suc j) dA dB dC) (timed_loop env cfg js dA dB)"

definition nIter :: nat where
  "nIter = 300"

definition launches ::
  "'f::{zero,plus,times} env \<Rightarrow> nat \<Rightarrow> idx2 \<Rightarrow> idx2 \<Rightarrow> 'f list \<times> 'f list \<times> 'f list \<Rightarrow> ('f, 'f list) run" where
  "launches env block_size dimsA dimsB dev =
     (if block_size = 0 then ([], Inl Undefined)
      else let cfg = launch_config block_size dimsA dimsB;
               dA = fst dev; dB = fst (snd dev); dC = snd (snd dev)
      in seq ([Printf ''Computing result using CUDA Kernel...''], Inr ())
        (\<lambda>_. seq (invoke env cfg 0 dA dB dC)
        (\<lambda>dC. seq ([Printf ''done'', DeviceSynchronize], Inr ())
        (\<lambda>_. seq (checked env [cudaEventCreate start, cudaEventCreate stop, cudaEventRecord start])
        (\<lambda>_. seq (timed_loop env cfg [0..<nIter] dA dB dC)
        (\<lambda>dC. seq (checked env [cudaEventRecord stop, cudaEventSynchronize stop,
                      cudaEventElapsedTime])
        (\<lambda>_. ([Printf ''Performance''], Inr dC))))))))"

text \<open>Line 189.\<close>

definition copy_back :: "'f env \<Rightarrow> idx2 \<Rightarrow> idx2 \<Rightarrow> 'f list \<Rightarrow> ('f, 'f list) run" where
  "copy_back env dimsA dimsB dC =
     (let mem_size_C = mem_size (fst dimsB) (snd dimsA)
      in case memcpy (malloc env h_C mem_size_C) dC mem_size_C of
           None \<Rightarrow> ([], Inl Undefined)
         | Some hC \<Rightarrow> seq (checkCudaErrors env (cudaMemcpy h_C d_C mem_size_C)) (\<lambda>_. ([], Inr hC)))"

text \<open>Lines 191 to 211: the check of every element against \<open>dimsA.x * valB\<close>.\<close>

definition rel_err :: "'f::{times,minus,inverse,abs} env \<Rightarrow> nat \<Rightarrow> 'f \<Rightarrow> 'f" where
  "rel_err env dimsA_x c =
     (let abs_err = \<bar>c - of_uint env dimsA_x * valB env\<bar>;
          dot_length = of_uint env dimsA_x;
          abs_val = \<bar>c\<bar>
      in abs_err / abs_val / dot_length)"

fun check_loop ::
  "'f::{times,minus,inverse,abs,ord} env \<Rightarrow> nat \<Rightarrow> 'f list \<Rightarrow> nat list \<Rightarrow> bool \<Rightarrow> ('f, bool) run" where
  "check_loop env dimsA_x hC [] correct = ([], Inr correct)"
| "check_loop env dimsA_x hC (i # is) correct =
     (case ld hC i of
        None \<Rightarrow> ([], Inl Undefined)
      | Some c \<Rightarrow>
          if eps env < rel_err env dimsA_x c
          then seq ([PrintError i c (of_uint env dimsA_x * valB env)], Inr ())
                 (\<lambda>_. check_loop env dimsA_x hC is False)
          else check_loop env dimsA_x hC is correct)"

definition loop_count :: "idx2 \<Rightarrow> idx2 \<Rightarrow> nat" where
  "loop_count dimsA dimsB = nat (to_int (u32 (fst dimsB * snd dimsA)))"

definition validate ::
  "'f::{times,minus,inverse,abs,ord} env \<Rightarrow> idx2 \<Rightarrow> idx2 \<Rightarrow> 'f list \<Rightarrow> ('f, bool) run" where
  "validate env dimsA dimsB hC =
     seq ([Printf ''Checking computed result for correctness: ''], Inr ())
       (\<lambda>_. seq (check_loop env (fst dimsA) hC [0..<loop_count dimsA dimsB] True)
       (\<lambda>correct. ([Printf (if correct then ''Result = PASS'' else ''Result = FAIL'')],
           Inr correct)))"

text \<open>Lines 213 to 222.\<close>

definition cleanup :: "'f env \<Rightarrow> ('f, unit) run" where
  "cleanup env =
     seq ([Free h_A, Free h_B, Free h_C], Inr ())
       (\<lambda>_. seq (checked env [cudaFree d_A, cudaFree d_B, cudaFree d_C])
       (\<lambda>_. ([Printf ''NOTE: The CUDA Samples are not meant for performance measurements.''],
           Inr ())))"

text \<open>
  \<open>MatrixMultiply\<close>, lines 79 to 230, in two parts: up to the copy of the result into
  \<open>h_C\<close>, and from there to the return value.
\<close>

definition compute ::
  "'f::{zero,one,plus,times} env \<Rightarrow> nat \<Rightarrow> idx2 \<Rightarrow> idx2 \<Rightarrow> ('f, 'f list) run" where
  "compute env block_size dimsA dimsB =
     seq (host_setup env dimsA dimsB)
       (\<lambda>host. seq (device_setup env dimsA dimsB host)
       (\<lambda>dev. seq (launches env block_size dimsA dimsB dev)
       (\<lambda>dC. copy_back env dimsA dimsB dC)))"

definition MatrixMultiply ::
  "'f::{zero,one,plus,times,minus,inverse,abs,ord} env \<Rightarrow> nat \<Rightarrow> idx2 \<Rightarrow> idx2 \<Rightarrow> ('f, int) run" where
  "MatrixMultiply env block_size dimsA dimsB =
     seq (compute env block_size dimsA dimsB)
       (\<lambda>hC. seq (validate env dimsA dimsB hC)
       (\<lambda>correct. seq (cleanup env)
       (\<lambda>_. ([], Inr (if correct then EXIT_SUCCESS else EXIT_FAILURE)))))"

text \<open>The content of \<open>h_C\<close> when the check starts, if the run gets there.\<close>

definition result_C ::
  "'f::{zero,one,plus,times} env \<Rightarrow> nat \<Rightarrow> idx2 \<Rightarrow> idx2 \<Rightarrow> 'f list option" where
  "result_C env block_size dimsA dimsB =
     (case snd (compute env block_size dimsA dimsB) of Inl out \<Rightarrow> None | Inr hC \<Rightarrow> Some hC)"

text \<open>
  The command line as \<open>main\<close> reads it through helper_string.h: whether \<open>help\<close> or \<open>?\<close> is
  given, and for each dimension the \<open>int\<close> that \<open>getCmdLineArgumentInt\<close> returns when its
  flag is given. The \<open>int\<close> is stored into an \<open>unsigned int\<close>.
\<close>

record args =
  flag_help :: bool
  arg_wA :: "int option"
  arg_hA :: "int option"
  arg_wB :: "int option"
  arg_hB :: "int option"

definition override :: "nat \<Rightarrow> int option \<Rightarrow> nat" where
  "override d a = (case a of None \<Rightarrow> d | Some v \<Rightarrow> nat (v mod 2 ^ 32))"

definition configured :: "args \<Rightarrow> idx2 \<times> idx2" where
  "configured a =
     (let block_size = 32 in
      ((override (5 * 2 * block_size) (arg_wA a), override (5 * 2 * block_size) (arg_hA a)),
       (override (5 * 2 * block_size) (arg_wB a), override (5 * 2 * block_size) (arg_hB a))))"

text \<open>Lines 236 to 291.\<close>

definition main ::
  "'f::{zero,one,plus,times,minus,inverse,abs,ord} env \<Rightarrow> args \<Rightarrow> ('f, unit) run" where
  "main env a =
     seq ([Printf ''[Matrix Multiply Using CUDA] - Starting...''], Inr ())
       (\<lambda>_. if flag_help a then ([Printf ''Usage''], Inl (Exited EXIT_SUCCESS))
          else seq ([FindCudaDevice],
                 case findCudaDevice env of None \<Rightarrow> Inr () | Some code \<Rightarrow> Inl (Exited code))
       (\<lambda>_. let block_size = 32; dimsA = fst (configured a); dimsB = snd (configured a)
          in if fst dimsA \<noteq> snd dimsB
             then ([PrintMismatch (fst dimsA) (snd dimsB)], Inl (Exited EXIT_FAILURE))
             else seq ([PrintDims (fst dimsA) (snd dimsA) (fst dimsB) (snd dimsB)], Inr ())
       (\<lambda>_. seq (MatrixMultiply env block_size dimsA dimsB)
       (\<lambda>matrix_result. ([], Inl (Exited matrix_result))))))"


fun track :: "buffer list \<Rightarrow> 'f event \<Rightarrow> buffer list" where
  "track live (Malloc b n ok) = (if ok then live @ [b] else live)"
| "track live (Cuda (cudaMalloc b n) ok) = (if ok then live @ [b] else live)"
| "track live (Free b) = removeAll b live"
| "track live (Cuda (cudaFree b) ok) = (if ok then removeAll b live else live)"
| "track live e = live"

definition unreleased :: "'f event list \<Rightarrow> buffer list" where
  "unreleased tr = foldl track [] tr"

section \<open>Launch geometries and inputs used below\<close>

text \<open>
  Every load of the tile steps \<open>ms\<close> of block \<open>b\<close> stays inside \<open>A\<close> and \<open>B\<close>.
\<close>

definition loads_in_bounds :: "launch \<Rightarrow> 'a list \<Rightarrow> 'a list \<Rightarrow> idx2 \<Rightarrow> nat list \<Rightarrow> bool" where
  "loads_in_bounds cfg A B b ms \<longleftrightarrow>
     (\<forall>m\<in>set ms. \<forall>s\<in>set (block_threads cfg).
        A_index cfg b m s < length A \<and> B_index cfg b m s < length B)"

text \<open>
  The execution configuration the driver builds for a supported tile size: square blocks of
  edge \<open>BLOCK_SIZE\<close>, and a grid of \<open>w div BLOCK_SIZE\<close> by \<open>h div BLOCK_SIZE\<close> blocks for an
  output of width \<open>w\<close> and height \<open>h\<close>.
\<close>

definition tiled :: "launch \<Rightarrow> nat \<Rightarrow> nat \<Rightarrow> bool" where
  "tiled cfg h w \<longleftrightarrow>
     blockDim cfg = (BLOCK_SIZE cfg, BLOCK_SIZE cfg) \<and>
     gridDim cfg = (w div BLOCK_SIZE cfg, h div BLOCK_SIZE cfg)"

text \<open>
  The sum a thread accumulates when every element of \<open>A\<close> is \<open>a\<close> and every element of \<open>B\<close> is
  \<open>b\<close>: \<open>n\<close> tile steps of \<open>s\<close> additions of \<open>a * b\<close>, in this order.
\<close>

definition const_sum :: "nat \<Rightarrow> nat \<Rightarrow> 'a \<Rightarrow> 'a \<Rightarrow> 'a::{zero,plus,times}" where
  "const_sum n s a b = foldl (\<lambda>acc m. foldl (\<lambda>acc k. acc + a * b) acc [0..<s]) 0 [0..<n]"

text \<open>A schedule in which thread \<open>bt\<close> is the last one to store.\<close>

definition last_to_store :: "launch \<Rightarrow> idx2 \<times> idx2 \<Rightarrow> (idx2 \<times> idx2) list" where
  "last_to_store cfg bt = filter (\<lambda>u. u \<noteq> bt) (grid_threads cfg) @ [bt]"

text \<open>
  Four launches with tile edge 32, the size \<open>main\<close> passes. The matrices hold small
  integers, on which \<open>float\<close> arithmetic is exact, so they are given as integers.
  \<open>square32\<close>: \<open>A\<close> and \<open>B\<close> are 32 by 32; \<open>A_e\<close> is zero but for \<open>A[0][1] = 1\<close> and
  \<open>B_e\<close> is zero but for \<open>B[1][0] = 1\<close>.
  \<open>wide32\<close>: \<open>wA = hA = hB = 32\<close> and \<open>wB = 64\<close>.
  \<open>tall32\<close>: \<open>wA = hB = 64\<close> and \<open>hA = wB = 32\<close>.
  \<open>race32\<close>: \<open>wA = hB = 32\<close> and \<open>hA = wB = 64\<close>; \<open>A_r\<close> is all ones and \<open>B_r\<close> is zero but
  for \<open>B[0][0] = 1\<close>.
\<close>

definition square32 :: launch where
  "square32 = \<lparr>BLOCK_SIZE = 32, blockDim = (32, 32), gridDim = (1, 1), wA = 32, wB = 32\<rparr>"

definition A_e :: "int list" where
  "A_e = (replicate 1024 0)[1 := 1]"

definition B_e :: "int list" where
  "B_e = (replicate 1024 0)[32 := 1]"

definition wide32 :: launch where
  "wide32 = \<lparr>BLOCK_SIZE = 32, blockDim = (32, 32), gridDim = (2, 1), wA = 32, wB = 64\<rparr>"

definition tall32 :: launch where
  "tall32 = \<lparr>BLOCK_SIZE = 32, blockDim = (32, 32), gridDim = (1, 1), wA = 64, wB = 32\<rparr>"

definition race32 :: launch where
  "race32 = \<lparr>BLOCK_SIZE = 32, blockDim = (32, 32), gridDim = (2, 2), wA = 32, wB = 64\<rparr>"

definition A_r :: "int list" where
  "A_r = replicate 2048 1"

definition B_r :: "int list" where
  "B_r = (replicate 2048 0)[0 := 1]"

text \<open>
  An environment in which every allocation and every runtime call succeeds, the threads of
  a launch store in the order of \<open>grid_threads\<close>, fresh memory holds zeros and the arithmetic
  is that of the rationals.
\<close>

definition env0 :: "rat env" where
  "env0 = \<lparr>malloc_ok = (\<lambda>_. True), cuda_ok = (\<lambda>_. True), launchable = (\<lambda>_. True),
     order = (\<lambda>_ _ _. 0), uninit = (\<lambda>_ _. 0), findCudaDevice = None,
     valB = 1 / 100, eps = 1 / 1000000, of_uint = of_nat\<rparr>"

text \<open>
  A property of events that holds of every event but, possibly, a kernel launch and an
  error line of the validation.
\<close>

definition housekeeping :: "('f event \<Rightarrow> bool) \<Rightarrow> bool" where
  "housekeeping P \<longleftrightarrow>
     (\<forall>b n ok. P (Malloc b n ok)) \<and> (\<forall>b. P (Free b)) \<and> (\<forall>c ok. P (Cuda c ok)) \<and>
     P DeviceSynchronize \<and> P FindCudaDevice \<and> (\<forall>s. P (Printf s)) \<and>
     (\<forall>a b c d. P (PrintDims a b c d)) \<and> (\<forall>a b. P (PrintMismatch a b))"

text \<open>
  The sizes for which no unsigned computation of the driver wraps around: the byte count
  of each matrix fits 32 bits, and the width of \<open>A\<close> is an \<open>int\<close>.
\<close>

definition in_range :: "idx2 \<Rightarrow> idx2 \<Rightarrow> bool" where
  "in_range dimsA dimsB \<longleftrightarrow>
     fst dimsA * snd dimsA < 2 ^ 30 \<and> fst dimsB * snd dimsB < 2 ^ 30 \<and>
     fst dimsB * snd dimsA < 2 ^ 30 \<and> fst dimsA < 2 ^ 31"

definition all_ok :: "'f env \<Rightarrow> bool" where
  "all_ok env \<longleftrightarrow> (\<forall>b. malloc_ok env b) \<and> (\<forall>c. cuda_ok env c)"


text \<open>
  Two command lines: \<open>-wA=32 -hA=32 -wB=32 -hB=32\<close>, and \<open>-wA=64\<close> with the other three
  dimensions left at their default 320.
\<close>

definition args32 :: args where
  "args32 = \<lparr>flag_help = False, arg_wA = Some 32, arg_hA = Some 32, arg_wB = Some 32,
     arg_hB = Some 32\<rparr>"

definition args_wA64 :: args where
  "args_wA64 = \<lparr>flag_help = False, arg_wA = Some 64, arg_hA = None, arg_wB = None,
     arg_hB = None\<rparr>"

text \<open>
  The environment \<open>env0\<close> but for fresh memory that holds ones, and the command line
  \<open>-wA=32 -hA=2097120 -wB=1088 -hB=32\<close>: every dimension is a multiple of 32 and
  \<open>wA = hB\<close>, and \<open>C\<close> has \<open>1088 * 2097120 = 2281666560\<close> elements, more than an \<open>int\<close>
  counts.
\<close>

definition env_ones :: "rat env" where
  "env_ones = env0\<lparr>uninit := \<lambda>_ _. 1\<rparr>"


section \<open>What the kernel computes\<close>

subsection \<open>The accumulation of one thread\<close>

text \<open>
  With blocks of \<open>BLOCK_SIZE\<close> by \<open>BLOCK_SIZE\<close> threads and every load inside its buffer, the
  staged loop of a thread returns the sum \<open>thread_sum\<close>: the tiles in ascending order, and
  within a tile \<open>k\<close> in ascending order.
\<close>

lemma set_block_threads:
  "set (block_threads cfg) = {0..<fst (blockDim cfg)} \<times> {0..<snd (blockDim cfg)}"
  by (simp add: block_threads_def)

lemma stage_Some:
  assumes "\<And>t. t \<in> set (block_threads cfg) \<Longrightarrow>
             fst t < BLOCK_SIZE cfg \<and> snd t < BLOCK_SIZE cfg \<and> f t \<noteq> None"
  shows "stage cfg f = Some (\<lambda>s. if s \<in> set (block_threads cfg) then f s else None)"
  using assms by (simp add: stage_def list_all_iff)

lemma inner_foldl:
  assumes "\<And>k. k \<in> set ks \<Longrightarrow> Ads (fst t, k) = Some (a k) \<and> Bds (k, snd t) = Some (b k)"
  shows "inner Ads Bds t ks acc = Some (foldl (\<lambda>acc k. acc + a k * b k) acc ks)"
  using assms by (induction ks arbitrary: acc) simp_all

lemma tile_loop_closed:
  assumes bd: "blockDim cfg = (BLOCK_SIZE cfg, BLOCK_SIZE cfg)"
    and t: "t \<in> set (block_threads cfg)"
    and ib: "loads_in_bounds cfg A B b ms"
  shows "tile_loop cfg A B b t ms acc =
     Some (foldl (\<lambda>acc m.
        foldl (\<lambda>acc k. acc + A ! A_index cfg b m (fst t, k) * B ! B_index cfg b m (k, snd t))
          acc [0..<BLOCK_SIZE cfg]) acc ms)"
  using ib
proof (induction ms arbitrary: acc)
  case Nil
  show ?case by simp
next
  case (Cons m ms)
  let ?fa = "\<lambda>s. ld A (A_index cfg b m s)"
  let ?fb = "\<lambda>s. ld B (B_index cfg b m s)"
  have inb: "\<And>s. s \<in> set (block_threads cfg) \<Longrightarrow>
      A_index cfg b m s < length A \<and> B_index cfg b m s < length B"
    using Cons.prems by (simp add: loads_in_bounds_def)
  have slot: "\<And>s. s \<in> set (block_threads cfg) \<Longrightarrow> fst s < BLOCK_SIZE cfg \<and> snd s < BLOCK_SIZE cfg"
    using bd by (auto simp: set_block_threads)
  have sa: "stage cfg ?fa = Some (\<lambda>s. if s \<in> set (block_threads cfg) then ?fa s else None)"
    by (rule stage_Some) (simp add: slot inb ld_def)
  have sb: "stage cfg ?fb = Some (\<lambda>s. if s \<in> set (block_threads cfg) then ?fb s else None)"
    by (rule stage_Some) (simp add: slot inb ld_def)
  have mem: "\<And>k. k < BLOCK_SIZE cfg \<Longrightarrow>
      (fst t, k) \<in> set (block_threads cfg) \<and> (k, snd t) \<in> set (block_threads cfg)"
    using t bd by (auto simp: set_block_threads)
  have inn: "inner (\<lambda>s. if s \<in> set (block_threads cfg) then ?fa s else None)
        (\<lambda>s. if s \<in> set (block_threads cfg) then ?fb s else None) t [0..<BLOCK_SIZE cfg] acc =
      Some (foldl (\<lambda>acc k. acc + A ! A_index cfg b m (fst t, k) * B ! B_index cfg b m (k, snd t))
          acc [0..<BLOCK_SIZE cfg])"
    by (rule inner_foldl) (simp add: mem inb ld_def)
  have rest: "loads_in_bounds cfg A B b ms"
    using Cons.prems by (simp add: loads_in_bounds_def)
  show ?case
    by (simp add: sa sb inn Cons.IH [OF rest])
qed

lemma C_local_closed:
  assumes "blockDim cfg = (BLOCK_SIZE cfg, BLOCK_SIZE cfg)"
    and "t \<in> set (block_threads cfg)"
    and "loads_in_bounds cfg A B b [0..<wA cfg div BLOCK_SIZE cfg]"
  shows "C_local cfg A B b t = Some (thread_sum cfg A B b t)"
  using tile_loop_closed [OF assms] by (simp add: C_local_def thread_sum_def)

subsection \<open>The subscripts of a tiled launch\<close>

text \<open>
  For the grid the driver builds, rows stay below the height and columns below the width
  of \<open>C\<close>; with \<open>wA\<close> at most that width, every load and every store is inside its buffer.
\<close>

lemma rowmajor_bound:
  fixes r c w h :: nat
  assumes "r < h" "c < w"
  shows "r * w + c < w * h"
proof -
  have "r * w + c < r * w + w" using assms by simp
  also have "\<dots> = Suc r * w" by simp
  also have "\<dots> \<le> h * w" using assms by (intro mult_le_mono1) simp
  finally show ?thesis by (simp add: mult.commute)
qed

lemma tile_coord_bound:
  fixes q i n s :: nat
  assumes "q < n div s" "i < s"
  shows "q * s + i < n"
proof -
  have "q * s + i < Suc q * s" using assms by simp
  also have "\<dots> \<le> (n div s) * s" using assms by (intro mult_le_mono1) simp
  also have "\<dots> \<le> n" by simp
  finally show ?thesis .
qed

lemma grid_threadsD:
  assumes "bt \<in> set (grid_threads cfg)"
  shows "fst (fst bt) < fst (gridDim cfg)" "snd (fst bt) < snd (gridDim cfg)"
    "snd bt \<in> set (block_threads cfg)"
  using assms by (auto simp: grid_threads_def)

lemma row_bound:
  assumes "tiled cfg h w" "snd b < snd (gridDim cfg)" "t \<in> set (block_threads cfg)"
  shows "row cfg b t < h"
  using assms by (auto simp: tiled_def row_def set_block_threads intro: tile_coord_bound)

lemma col_bound:
  assumes "tiled cfg h w" "fst b < fst (gridDim cfg)" "t \<in> set (block_threads cfg)"
  shows "col cfg b t < w"
  using assms by (auto simp: tiled_def col_def set_block_threads intro: tile_coord_bound)

lemma loads_in_bounds_tiled:
  assumes g: "tiled cfg h w" and b: "fst b < fst (gridDim cfg)" "snd b < snd (gridDim cfg)"
    and le: "wA cfg \<le> w"
    and lA: "length A = wA cfg * h" and lB: "length B = w * wA cfg"
  shows "loads_in_bounds cfg A B b [0..<wA cfg div BLOCK_SIZE cfg]"
  unfolding loads_in_bounds_def
proof (intro ballI conjI)
  fix m s assume m: "m \<in> set [0..<wA cfg div BLOCK_SIZE cfg]" and s: "s \<in> set (block_threads cfg)"
  have s': "fst s < BLOCK_SIZE cfg" "snd s < BLOCK_SIZE cfg"
    using s g by (auto simp: tiled_def set_block_threads)
  have r: "row cfg b s < h" using row_bound [OF g b(2) s] .
  have c: "col cfg b s < w" using col_bound [OF g b(1) s] .
  have k1: "m * BLOCK_SIZE cfg + fst s < wA cfg" using m s' by (auto intro: tile_coord_bound)
  have k2: "m * BLOCK_SIZE cfg + snd s < wA cfg" using m s' by (auto intro: tile_coord_bound)
  show "A_index cfg b m s < length A"
    using rowmajor_bound [OF r k1] by (simp add: A_index_def lA add.assoc)
  have "(m * BLOCK_SIZE cfg + snd s) * wA cfg + col cfg b s
      \<le> (m * BLOCK_SIZE cfg + snd s) * w + col cfg b s"
    using le by (simp add: mult_le_mono2)
  also have "\<dots> < w * wA cfg" using rowmajor_bound [OF k2 c] .
  finally show "B_index cfg b m s < length B" by (simp add: B_index_def lB)
qed

lemma C_index_bound:
  assumes g: "tiled cfg h w" and b: "fst b < fst (gridDim cfg)" "snd b < snd (gridDim cfg)"
    and t: "t \<in> set (block_threads cfg)" and le: "wA cfg \<le> w"
  shows "C_index cfg b t < w * h"
proof -
  have "row cfg b t * wA cfg + col cfg b t \<le> row cfg b t * w + col cfg b t"
    using le by (simp add: mult_le_mono2)
  also have "\<dots> < w * h"
    using rowmajor_bound [OF row_bound [OF g b(2) t] col_bound [OF g b(1) t]] .
  finally show ?thesis by (simp add: C_index_def)
qed

subsection \<open>The stores of a launch\<close>

text \<open>
  A launch is defined when each of its threads is; it leaves alone the elements no thread
  stores to, and an element holds the value of the last thread that stored to it.
\<close>

lemma MatrixMulCUDA_Some:
  "MatrixMulCUDA cfg A B bt C = Some C' \<longleftrightarrow>
     (\<exists>v. C_local cfg A B (fst bt) (snd bt) = Some v \<and>
          C_index cfg (fst bt) (snd bt) < length C \<and>
          C' = C[C_index cfg (fst bt) (snd bt) := v])"
  by (cases "C_local cfg A B (fst bt) (snd bt)") (auto simp: MatrixMulCUDA_def st_def)

lemma kernel_launch_append:
  "kernel_launch cfg A B (xs @ ys) C =
     (case kernel_launch cfg A B xs C of None \<Rightarrow> None | Some C' \<Rightarrow> kernel_launch cfg A B ys C')"
  by (induction xs arbitrary: C) (simp_all split: option.splits)

lemma kernel_launch_length:
  "kernel_launch cfg A B sched C = Some C' \<Longrightarrow> length C' = length C"
proof (induction sched arbitrary: C)
  case Nil
  then show ?case by simp
next
  case (Cons bt sched)
  then show ?case
    by (auto simp: MatrixMulCUDA_Some split: option.splits)
qed

lemma kernel_launch_Some:
  assumes "\<And>bt. bt \<in> set sched \<Longrightarrow>
     C_local cfg A B (fst bt) (snd bt) \<noteq> None \<and> C_index cfg (fst bt) (snd bt) < length C"
  shows "\<exists>C'. kernel_launch cfg A B sched C = Some C'"
  using assms
proof (induction sched arbitrary: C)
  case Nil
  show ?case by simp
next
  case (Cons bt sched)
  from Cons.prems [of bt] obtain v where v: "C_local cfg A B (fst bt) (snd bt) = Some v"
    and i: "C_index cfg (fst bt) (snd bt) < length C" by auto
  have step: "MatrixMulCUDA cfg A B bt C = Some (C[C_index cfg (fst bt) (snd bt) := v])"
    using v i by (simp add: MatrixMulCUDA_Some)
  have "\<exists>C'. kernel_launch cfg A B sched (C[C_index cfg (fst bt) (snd bt) := v]) = Some C'"
    by (rule Cons.IH) (use Cons.prems in auto)
  then show ?case by (simp add: step)
qed

lemma kernel_launch_untouched:
  assumes "kernel_launch cfg A B sched C = Some C'"
    and "\<And>bt. bt \<in> set sched \<Longrightarrow> C_index cfg (fst bt) (snd bt) \<noteq> p"
  shows "C' ! p = C ! p"
  using assms
proof (induction sched arbitrary: C)
  case Nil
  then show ?case by simp
next
  case (Cons bt sched)
  from Cons.prems(1) obtain C1 where s: "MatrixMulCUDA cfg A B bt C = Some C1"
    and r: "kernel_launch cfg A B sched C1 = Some C'"
    by (auto split: option.splits)
  have "C' ! p = C1 ! p" by (rule Cons.IH [OF r]) (use Cons.prems(2) in auto)
  moreover have "C1 ! p = C ! p"
    using s Cons.prems(2) [of bt] by (auto simp: MatrixMulCUDA_Some)
  ultimately show ?case by simp
qed

lemma kernel_launch_last_writer:
  assumes run: "kernel_launch cfg A B (xs @ bt # ys) C = Some C'"
    and v: "C_local cfg A B (fst bt) (snd bt) = Some v"
    and later: "\<And>u. u \<in> set ys \<Longrightarrow> C_index cfg (fst u) (snd u) \<noteq> C_index cfg (fst bt) (snd bt)"
  shows "C' ! C_index cfg (fst bt) (snd bt) = v"
proof -
  from run obtain C1 where 1: "kernel_launch cfg A B xs C = Some C1"
    and 2: "kernel_launch cfg A B (bt # ys) C1 = Some C'"
    by (auto simp: kernel_launch_append split: option.splits)
  from 2 obtain C2 where 3: "MatrixMulCUDA cfg A B bt C1 = Some C2"
    and 4: "kernel_launch cfg A B ys C2 = Some C'"
    by (auto split: option.splits)
  have "C' ! C_index cfg (fst bt) (snd bt) = C2 ! C_index cfg (fst bt) (snd bt)"
    by (rule kernel_launch_untouched [OF 4]) (rule later)
  also have "\<dots> = v" using 3 v by (auto simp: MatrixMulCUDA_Some)
  finally show ?thesis .
qed

text \<open>When no two threads of the schedule store to the same element.\<close>

lemma kernel_launch_value:
  assumes run: "kernel_launch cfg A B sched C = Some C'"
    and d: "distinct sched" and bt: "bt \<in> set sched"
    and inj: "inj_on (\<lambda>u. C_index cfg (fst u) (snd u)) (set sched)"
    and v: "C_local cfg A B (fst bt) (snd bt) = Some v"
  shows "C' ! C_index cfg (fst bt) (snd bt) = v"
proof -
  from bt obtain xs ys where s: "sched = xs @ bt # ys" by (auto simp: in_set_conv_decomp)
  have nys: "bt \<notin> set ys" using d s by auto
  show ?thesis
  proof (rule kernel_launch_last_writer [OF run [unfolded s] v])
    fix u assume u: "u \<in> set ys"
    then have "u \<in> set sched" "u \<noteq> bt" using s nys by auto
    then show "C_index cfg (fst u) (snd u) \<noteq> C_index cfg (fst bt) (snd bt)"
      using inj bt by (auto dest: inj_onD)
  qed
qed

subsection \<open>Launches with \<open>wA = wB\<close>\<close>

lemma rowmajor_inj:
  fixes r c r' c' w :: nat
  assumes "r * w + c = r' * w + c'" "c < w" "c' < w"
  shows "r = r' \<and> c = c'"
proof -
  have a: "(r * w + c) div w = r" using assms(2) by simp
  have b: "(r' * w + c') div w = r'" using assms(3) by simp
  have "r = r'" using a b assms(1) by metis
  then show ?thesis using assms(1) by simp
qed

lemma C_index_inj:
  assumes g: "tiled cfg h w" and w: "w \<le> wA cfg"
  shows "inj_on (\<lambda>u. C_index cfg (fst u) (snd u)) (set (grid_threads cfg))"
proof (rule inj_onI)
  fix u u' assume u: "u \<in> set (grid_threads cfg)" and u': "u' \<in> set (grid_threads cfg)"
    and eq: "C_index cfg (fst u) (snd u) = C_index cfg (fst u') (snd u')"
  note d = grid_threadsD [OF u] and d' = grid_threadsD [OF u']
  have c: "col cfg (fst u) (snd u) < wA cfg" "col cfg (fst u') (snd u') < wA cfg"
    using col_bound [OF g d(1) d(3)] col_bound [OF g d'(1) d'(3)] w by simp_all
  from rowmajor_inj [OF eq [unfolded C_index_def] c]
  have r: "row cfg (fst u) (snd u) = row cfg (fst u') (snd u')"
    and k: "col cfg (fst u) (snd u) = col cfg (fst u') (snd u')" by simp_all
  have t: "fst (snd u) < BLOCK_SIZE cfg" "snd (snd u) < BLOCK_SIZE cfg"
    "fst (snd u') < BLOCK_SIZE cfg" "snd (snd u') < BLOCK_SIZE cfg"
    using d(3) d'(3) g by (auto simp: tiled_def set_block_threads)
  have bd: "blockDim cfg = (BLOCK_SIZE cfg, BLOCK_SIZE cfg)" using g by (simp add: tiled_def)
  have "snd (fst u) = snd (fst u') \<and> snd (snd u) = snd (snd u')"
    using rowmajor_inj [OF r [unfolded row_def bd snd_conv] t(2) t(4)] .
  moreover have "fst (fst u) = fst (fst u') \<and> fst (snd u) = fst (snd u')"
    using rowmajor_inj [OF k [unfolded col_def bd fst_conv] t(1) t(3)] .
  ultimately show "u = u'" by (simp add: prod_eq_iff)
qed

text \<open>What a launch computes when \<open>A\<close> and \<open>C\<close> have the same width.\<close>

lemma kernel_launch_computes:
  assumes g: "tiled cfg h w" and w: "wA cfg = w"
    and lA: "length A = wA cfg * h" and lB: "length B = w * wA cfg" and lC: "length C = w * h"
    and s: "schedule cfg sched"
  shows "\<exists>C'. kernel_launch cfg A B sched C = Some C' \<and> length C' = length C \<and>
     (\<forall>bt\<in>set sched. C' ! C_index cfg (fst bt) (snd bt) = thread_sum cfg A B (fst bt) (snd bt))"
proof -
  have bd: "blockDim cfg = (BLOCK_SIZE cfg, BLOCK_SIZE cfg)" using g by (simp add: tiled_def)
  have val: "C_local cfg A B (fst bt) (snd bt) = Some (thread_sum cfg A B (fst bt) (snd bt))"
    and idx: "C_index cfg (fst bt) (snd bt) < length C" if "bt \<in> set sched" for bt
  proof -
    from that s have u: "bt \<in> set (grid_threads cfg)" by (simp add: schedule_def)
    note d = grid_threadsD [OF u]
    show "C_local cfg A B (fst bt) (snd bt) = Some (thread_sum cfg A B (fst bt) (snd bt))"
      by (rule C_local_closed [OF bd d(3)])
        (rule loads_in_bounds_tiled [OF g d(1) d(2) _ lA lB], simp add: w)
    show "C_index cfg (fst bt) (snd bt) < length C"
      using C_index_bound [OF g d(1) d(2) d(3)] w lC by simp
  qed
  from kernel_launch_Some [of sched cfg A B C]
  obtain C' where run: "kernel_launch cfg A B sched C = Some C'"
    using val idx by auto
  have inj: "inj_on (\<lambda>u. C_index cfg (fst u) (snd u)) (set sched)"
    using C_index_inj [OF g] w s by (simp add: schedule_def)
  have "C' ! C_index cfg (fst bt) (snd bt) = thread_sum cfg A B (fst bt) (snd bt)"
    if "bt \<in> set sched" for bt
    using kernel_launch_value [OF run _ that inj val [OF that]] s by (simp add: schedule_def)
  then show ?thesis using run kernel_launch_length [OF run] by auto
qed

subsection \<open>The four launches\<close>

lemma ts0: "thread_sum square32 A_e B_e (0, 0) (0, 0) = 0"
  by (simp add: thread_sum_def A_index_def B_index_def row_def col_def square32_def A_e_def B_e_def upt_rec)

lemma sd0: "spec_dot A_e B_e 32 32 0 0 = 1"
  by (simp add: spec_dot_def A_e_def B_e_def upt_rec)

lemma thread_defined:
  assumes g: "tiled cfg h w" and le: "wA cfg \<le> w"
    and lA: "length A = wA cfg * h" and lB: "length B = w * wA cfg" and lC: "length C = w * h"
    and u: "bt \<in> set (grid_threads cfg)"
  shows "C_local cfg A B (fst bt) (snd bt) = Some (thread_sum cfg A B (fst bt) (snd bt))"
    and "C_index cfg (fst bt) (snd bt) < length C"
proof -
  have bd: "blockDim cfg = (BLOCK_SIZE cfg, BLOCK_SIZE cfg)" using g by (simp add: tiled_def)
  note d = grid_threadsD [OF u]
  show "C_local cfg A B (fst bt) (snd bt) = Some (thread_sum cfg A B (fst bt) (snd bt))"
    by (rule C_local_closed [OF bd d(3)]) (rule loads_in_bounds_tiled [OF g d(1) d(2) le lA lB])
  show "C_index cfg (fst bt) (snd bt) < length C"
    using C_index_bound [OF g d(1) d(2) d(3) le] lC by simp
qed

lemma kernel_launch_defined:
  assumes g: "tiled cfg h w" and le: "wA cfg \<le> w"
    and lA: "length A = wA cfg * h" and lB: "length B = w * wA cfg" and lC: "length C = w * h"
    and s: "set sched \<subseteq> set (grid_threads cfg)"
  shows "\<exists>C'. kernel_launch cfg A B sched C = Some C'"
proof (rule kernel_launch_Some)
  fix bt assume "bt \<in> set sched"
  then have u: "bt \<in> set (grid_threads cfg)" using s by auto
  show "C_local cfg A B (fst bt) (snd bt) \<noteq> None \<and> C_index cfg (fst bt) (snd bt) < length C"
    using thread_defined [OF g le lA lB lC u] by simp
qed

lemma kernel_launch_inside:
  assumes g: "tiled cfg h w" and le: "wA cfg \<le> w"
    and lA: "length A = wA cfg * h" and lB: "length B = w * wA cfg"
    and inC: "\<And>bt. bt \<in> set (grid_threads cfg) \<Longrightarrow> C_index cfg (fst bt) (snd bt) < length C"
    and s: "set sched \<subseteq> set (grid_threads cfg)"
  shows "\<exists>C'. kernel_launch cfg A B sched C = Some C'"
proof (rule kernel_launch_Some)
  fix bt assume "bt \<in> set sched"
  then have u: "bt \<in> set (grid_threads cfg)" using s by auto
  have bd: "blockDim cfg = (BLOCK_SIZE cfg, BLOCK_SIZE cfg)" using g by (simp add: tiled_def)
  note d = grid_threadsD [OF u]
  have "C_local cfg A B (fst bt) (snd bt) = Some (thread_sum cfg A B (fst bt) (snd bt))"
    by (rule C_local_closed [OF bd d(3)]) (rule loads_in_bounds_tiled [OF g d(1) d(2) le lA lB])
  then show "C_local cfg A B (fst bt) (snd bt) \<noteq> None \<and> C_index cfg (fst bt) (snd bt) < length C"
    using inC [OF u] by simp
qed

lemma tiled_wide32: "tiled wide32 32 64"
  by (simp add: tiled_def wide32_def)

lemma tiled_square32: "tiled square32 32 32"
  by (simp add: tiled_def square32_def)

lemma tile_loop_faults:
  assumes "stage cfg (\<lambda>s. ld B (B_index cfg b m s)) = None" and "m \<in> set ms"
  shows "tile_loop cfg A B b t ms acc = None"
  using assms(2)
proof (induction ms arbitrary: acc)
  case Nil
  then show ?case by simp
next
  case (Cons m' ms)
  show ?case
  proof (cases "m' = m")
    case True
    then show ?thesis by (simp add: assms(1))
  next
    case False
    then have "\<And>acc. tile_loop cfg A B b t ms acc = None" using Cons by simp
    then have "tile_loop cfg A B b t ms = (\<lambda>_. None)" by (intro ext)
    then show ?thesis by simp
  qed
qed

lemma grid_threads_first:
  assumes "0 < fst (gridDim cfg)" "0 < snd (gridDim cfg)"
    "0 < fst (blockDim cfg)" "0 < snd (blockDim cfg)"
  shows "\<exists>rest. grid_threads cfg = ((0, 0), (0, 0)) # rest"
proof -
  have u: "\<And>n::nat. 0 < n \<Longrightarrow> [0..<n] = 0 # [1..<n]" by (simp add: upt_rec)
  show ?thesis
    by (simp add: grid_threads_def block_threads_def u [OF assms(1)] u [OF assms(2)]
        u [OF assms(3)] u [OF assms(4)])
qed

lemma distinct_grid_threads: "distinct (grid_threads cfg)"
  by (simp add: grid_threads_def block_threads_def distinct_product)

lemma schedule_last_to_store:
  "bt \<in> set (grid_threads cfg) \<Longrightarrow> schedule cfg (last_to_store cfg bt)"
  by (auto simp: schedule_def last_to_store_def distinct_grid_threads)

lemma kernel_launch_last_to_store:
  assumes g: "tiled cfg h w" and le: "wA cfg \<le> w"
    and lA: "length A = wA cfg * h" and lB: "length B = w * wA cfg" and lC: "length C = w * h"
    and u: "bt \<in> set (grid_threads cfg)"
  shows "map_option (\<lambda>C. C ! C_index cfg (fst bt) (snd bt))
     (kernel_launch cfg A B (last_to_store cfg bt) C) = Some (thread_sum cfg A B (fst bt) (snd bt))"
proof -
  have "set (last_to_store cfg bt) \<subseteq> set (grid_threads cfg)"
    using u by (auto simp: last_to_store_def)
  from kernel_launch_defined [OF g le lA lB lC this]
  obtain C' where run: "kernel_launch cfg A B (last_to_store cfg bt) C = Some C'" ..
  have "C' ! C_index cfg (fst bt) (snd bt) = thread_sum cfg A B (fst bt) (snd bt)"
    by (rule kernel_launch_last_writer [OF run [unfolded last_to_store_def]
          thread_defined(1) [OF g le lA lB lC u]]) simp
  then show ?thesis by (simp add: run)
qed

lemma tiled_race32: "tiled race32 64 64"
  by (simp add: tiled_def race32_def)

lemma race_values:
  "thread_sum race32 A_r B_r (0, 1) (0, 0) = 1" "thread_sum race32 A_r B_r (1, 0) (0, 31) = 0"
  by (simp_all add: thread_sum_def A_index_def B_index_def row_def col_def race32_def A_r_def B_r_def upt_rec)

subsection \<open>Constant inputs\<close>

lemma foldl_cong_set:
  assumes "\<And>x acc. x \<in> set xs \<Longrightarrow> f acc x = g acc x"
  shows "foldl f acc xs = foldl g acc xs"
  using assms by (induction xs arbitrary: acc) simp_all

lemma thread_sum_const:
  assumes bd: "blockDim cfg = (BLOCK_SIZE cfg, BLOCK_SIZE cfg)"
    and t: "t \<in> set (block_threads cfg)"
    and ib: "loads_in_bounds cfg (replicate nA a) (replicate nB b) bl [0..<wA cfg div BLOCK_SIZE cfg]"
  shows "thread_sum cfg (replicate nA a) (replicate nB b) bl t =
     const_sum (wA cfg div BLOCK_SIZE cfg) (BLOCK_SIZE cfg) a b"
  unfolding thread_sum_def const_sum_def
proof (rule foldl_cong_set, rule foldl_cong_set)
  fix m acc' k acc
  assume m: "m \<in> set [0..<wA cfg div BLOCK_SIZE cfg]" and k: "k \<in> set [0..<BLOCK_SIZE cfg]"
  have mem: "(fst t, k) \<in> set (block_threads cfg)" "(k, snd t) \<in> set (block_threads cfg)"
    using t k bd by (auto simp: set_block_threads)
  have "A_index cfg bl m (fst t, k) < nA" "B_index cfg bl m (k, snd t) < nB"
    using ib m mem by (auto simp: loads_in_bounds_def)
  then show "acc + replicate nA a ! A_index cfg bl m (fst t, k) *
      replicate nB b ! B_index cfg bl m (k, snd t) = acc + a * b"
    by simp
qed

lemma C_index_onto:
  assumes g: "tiled cfg h w" and w: "wA cfg = w"
    and dw: "BLOCK_SIZE cfg dvd w" and dh: "BLOCK_SIZE cfg dvd h" and pos: "0 < BLOCK_SIZE cfg"
    and p: "p < w * h"
  shows "\<exists>bt\<in>set (grid_threads cfg). C_index cfg (fst bt) (snd bt) = p"
proof -
  let ?s = "BLOCK_SIZE cfg"
  have w0: "0 < w" using p by (cases w) simp_all
  let ?r = "p div w" and ?c = "p mod w"
  have r: "?r < h" using p w0 by (simp add: less_mult_imp_div_less mult.commute)
  have c: "?c < w" using w0 by simp
  let ?bt = "((?c div ?s, ?r div ?s), (?c mod ?s, ?r mod ?s))"
  have bx: "?c div ?s < w div ?s"
    using c dw by (metis dvd_div_mult_self less_mult_imp_div_less)
  have by': "?r div ?s < h div ?s"
    using r dh by (metis dvd_div_mult_self less_mult_imp_div_less)
  have "?bt \<in> set (grid_threads cfg)"
    using g bx by' pos by (simp add: grid_threads_def set_block_threads tiled_def)
  moreover have "C_index cfg (fst ?bt) (snd ?bt) = p"
    using g w by (simp add: C_index_def row_def col_def tiled_def)
  ultimately show ?thesis by blast
qed

text \<open>
  With constant inputs, widths \<open>wA = wB\<close> and dimensions that are multiples of the tile edge,
  a launch fills \<open>C\<close> with one value, the sum \<open>const_sum\<close>, whatever \<open>C\<close> held and whatever
  the schedule.
\<close>

lemma kernel_launch_const:
  assumes g: "tiled cfg h w" and w: "wA cfg = w"
    and dw: "BLOCK_SIZE cfg dvd w" and dh: "BLOCK_SIZE cfg dvd h" and pos: "0 < BLOCK_SIZE cfg"
    and lC: "length C = w * h" and s: "schedule cfg sched"
  shows "kernel_launch cfg (replicate (wA cfg * h) a) (replicate (w * wA cfg) b) sched C =
     Some (replicate (w * h) (const_sum (wA cfg div BLOCK_SIZE cfg) (BLOCK_SIZE cfg) a b))"
proof -
  let ?A = "replicate (wA cfg * h) a" and ?B = "replicate (w * wA cfg) b"
  let ?v = "const_sum (wA cfg div BLOCK_SIZE cfg) (BLOCK_SIZE cfg) a b"
  have lA: "length ?A = wA cfg * h" and lB: "length ?B = w * wA cfg" by simp_all
  from kernel_launch_computes [OF g w lA lB lC s]
  obtain C' where run: "kernel_launch cfg ?A ?B sched C = Some C'"
    and l: "length C' = length C"
    and val: "\<And>bt. bt \<in> set sched \<Longrightarrow>
       C' ! C_index cfg (fst bt) (snd bt) = thread_sum cfg ?A ?B (fst bt) (snd bt)"
    by blast
  have bd: "blockDim cfg = (BLOCK_SIZE cfg, BLOCK_SIZE cfg)" using g by (simp add: tiled_def)
  have "C' = replicate (w * h) ?v"
  proof (rule nth_equalityI)
    show "length C' = length (replicate (w * h) ?v)" using l lC by simp
  next
    fix p assume "p < length C'"
    then have p: "p < w * h" using l lC by simp
    from C_index_onto [OF g w dw dh pos p]
    obtain bt where u: "bt \<in> set (grid_threads cfg)" and i: "C_index cfg (fst bt) (snd bt) = p"
      by blast
    note d = grid_threadsD [OF u]
    have le: "wA cfg \<le> w" using w by simp
    have "thread_sum cfg ?A ?B (fst bt) (snd bt) = ?v"
      by (rule thread_sum_const [OF bd d(3)])
        (rule loads_in_bounds_tiled [OF g d(1) d(2) le lA lB])
    moreover have "bt \<in> set sched" using u s by (simp add: schedule_def)
    ultimately have "C' ! p = ?v" using val [of bt] i by simp
    then show "C' ! p = replicate (w * h) ?v ! p" using p by simp
  qed
  then show ?thesis using run by simp
qed

text \<open>
  With \<open>wA = wB\<close> no two threads store to the same element, and the result of a launch does
  not depend on the schedule.
\<close>

lemma kernel_launch_deterministic:
  assumes g: "tiled cfg h w" and w: "wA cfg = w"
    and lA: "length A = wA cfg * h" and lB: "length B = w * wA cfg" and lC: "length C = w * h"
    and s1: "schedule cfg sched1" and s2: "schedule cfg sched2"
  shows "kernel_launch cfg A B sched1 C = kernel_launch cfg A B sched2 C"
proof -
  from kernel_launch_computes [OF g w lA lB lC s1]
  obtain C1 where r1: "kernel_launch cfg A B sched1 C = Some C1" and l1: "length C1 = length C"
    and v1: "\<And>bt. bt \<in> set sched1 \<Longrightarrow>
       C1 ! C_index cfg (fst bt) (snd bt) = thread_sum cfg A B (fst bt) (snd bt)"
    by blast
  from kernel_launch_computes [OF g w lA lB lC s2]
  obtain C2 where r2: "kernel_launch cfg A B sched2 C = Some C2" and l2: "length C2 = length C"
    and v2: "\<And>bt. bt \<in> set sched2 \<Longrightarrow>
       C2 ! C_index cfg (fst bt) (snd bt) = thread_sum cfg A B (fst bt) (snd bt)"
    by blast
  have e: "set sched1 = set sched2" using s1 s2 by (simp add: schedule_def)
  have "C1 = C2"
  proof (rule nth_equalityI)
    show "length C1 = length C2" using l1 l2 by simp
  next
    fix p assume "p < length C1"
    show "C1 ! p = C2 ! p"
    proof (cases "\<exists>bt\<in>set sched1. C_index cfg (fst bt) (snd bt) = p")
      case True
      then obtain bt where "bt \<in> set sched1" "C_index cfg (fst bt) (snd bt) = p" by blast
      then show ?thesis using v1 [of bt] v2 [of bt] e by simp
    next
      case False
      then have "C1 ! p = C ! p" "C2 ! p = C ! p"
        using kernel_launch_untouched [OF r1, of p] kernel_launch_untouched [OF r2, of p] e
        by auto
      then show ?thesis by simp
    qed
  qed
  then show ?thesis using r1 r2 by simp
qed

subsection \<open>Launches with \<open>wA\<close> other than \<open>wB\<close>\<close>

lemma wide32_untouched:
  assumes u: "bt \<in> set (grid_threads wide32)"
  shows "C_index wide32 (fst bt) (snd bt) \<noteq> 2047"
proof -
  note d = grid_threadsD [OF u]
  have "row wide32 (fst bt) (snd bt) < 32" by (rule row_bound [OF tiled_wide32 d(2) d(3)])
  moreover have "col wide32 (fst bt) (snd bt) < 64" by (rule col_bound [OF tiled_wide32 d(1) d(3)])
  ultimately show ?thesis by (simp add: C_index_def wide32_def)
qed

lemma kernel_launch_faults:
  assumes "sched \<noteq> []"
    and "\<And>bt. bt \<in> set sched \<Longrightarrow> C_local cfg A B (fst bt) (snd bt) = None"
  shows "kernel_launch cfg A B sched C = None"
  using assms by (cases sched) (simp_all add: MatrixMulCUDA_def)

lemma tall32_faults:
  assumes u: "bt \<in> set (grid_threads tall32)" and lB: "length B = 2048"
  shows "C_local tall32 A B (fst bt) (snd bt) = None"
proof -
  have b: "fst bt = (0, 0)" using u by (auto simp: grid_threads_def tall32_def)
  have "(0, 0) \<in> set (block_threads tall32)"
    by (simp add: set_block_threads tall32_def)
  moreover have "ld B (B_index tall32 (0, 0) 1 (0, 0)) = None"
    by (simp add: ld_def B_index_def col_def tall32_def lB)
  ultimately have "stage tall32 (\<lambda>s. ld B (B_index tall32 (0, 0) 1 s)) = None"
    by (auto simp: stage_def list_all_iff)
  then show ?thesis
    unfolding C_local_def b by (rule tile_loop_faults) (simp add: tall32_def)
qed

lemma schedule_sort_key: "schedule cfg (sort_key f (grid_threads cfg))"
  by (simp add: schedule_def distinct_grid_threads)

lemma tall32_launch_faults:
  assumes "length B = 2048"
  shows "kernel_launch tall32 A B (sort_key f (grid_threads tall32)) C = None"
proof (rule kernel_launch_faults)
  obtain rest where g: "grid_threads tall32 = ((0, 0), (0, 0)) # rest"
    using grid_threads_first [of tall32] by (auto simp: tall32_def)
  show "sort_key f (grid_threads tall32) \<noteq> []"
  proof
    assume e: "sort_key f (grid_threads tall32) = []"
    have "set (grid_threads tall32) = set (sort_key f (grid_threads tall32))"
      by (rule set_sort [symmetric])
    also have "\<dots> = {}" unfolding e by simp
    finally show False using g by simp
  qed
next
  fix bt assume "bt \<in> set (sort_key f (grid_threads tall32))"
  then show "C_local tall32 A B (fst bt) (snd bt) = None"
    using assms by (simp add: tall32_faults)
qed

section \<open>What the driver does\<close>

subsection \<open>Sequencing, checked calls and \<open>ConstantInit\<close>\<close>

lemma seq_Inl: "seq (tr, Inl out) k = (tr, Inl out)"
  by (simp add: seq_def)

lemma seq_Inr: "seq (tr, Inr a) k = (tr @ fst (k a), snd (k a))"
  by (simp add: seq_def split: prod.splits)

lemma seq_eq_Inr:
  "seq p k = (tr, Inr b) \<longleftrightarrow>
     (\<exists>tr1 a tr2. p = (tr1, Inr a) \<and> k a = (tr2, Inr b) \<and> tr = tr1 @ tr2)"
  by (cases p) (auto simp: seq_def split: sum.splits prod.splits)

lemma fst_seq:
  "fst (seq p k) = fst p @ (case snd p of Inl out \<Rightarrow> [] | Inr a \<Rightarrow> fst (k a))"
  by (cases p) (auto simp: seq_def split: sum.splits prod.splits)

lemma checkCudaErrors_ok: "cuda_ok env c \<Longrightarrow> checkCudaErrors env c = ([Cuda c True], Inr ())"
  by (simp add: checkCudaErrors_def)

lemma checkCudaErrors_Inr:
  "checkCudaErrors env c = (tr, Inr ()) \<longleftrightarrow> cuda_ok env c \<and> tr = [Cuda c True]"
  by (auto simp: checkCudaErrors_def)

lemma checked_ok:
  "list_all (cuda_ok env) cs \<Longrightarrow> checked env cs = (map (\<lambda>c. Cuda c True) cs, Inr ())"
  by (induction cs) (simp_all add: checkCudaErrors_ok seq_Inr)

lemma checked_Inr:
  "checked env cs = (tr, Inr ()) \<longleftrightarrow> list_all (cuda_ok env) cs \<and> tr = map (\<lambda>c. Cuda c True) cs"
proof (induction cs arbitrary: tr)
  case Nil
  show ?case by auto
next
  case (Cons c cs)
  show ?case
    by (auto simp: seq_eq_Inr checkCudaErrors_Inr Cons)
qed

lemma ConstantInit_loop_eq:
  "ConstantInit_loop data js v =
     (if list_all (\<lambda>i. i < length data) js then Some (fold (\<lambda>i d. d[i := v]) js data) else None)"
  by (induction js arbitrary: data) (simp_all add: st_def)

lemma fold_fill_upt:
  "n \<le> length data \<Longrightarrow> fold (\<lambda>i d. d[i := v]) [0..<n] data = replicate n v @ drop n data"
proof (induction n)
  case 0
  show ?case by simp
next
  case (Suc n)
  then have "fold (\<lambda>i d. d[i := v]) [0..<Suc n] data = (replicate n v @ drop n data)[n := v]"
    by simp
  also have "\<dots> = replicate n v @ (drop n data)[0 := v]"
    by (simp add: list_update_append)
  also have "(drop n data)[0 := v] = v # drop (Suc n) data"
    using Suc.prems by (simp add: Cons_nth_drop_Suc [symmetric])
  finally show ?case by (simp add: replicate_append_same)
qed

lemma ConstantInit_eq:
  "ConstantInit data sz v =
     (if nat sz \<le> length data then Some (replicate (nat sz) v @ drop (nat sz) data) else None)"
proof (cases "nat sz \<le> length data")
  case True
  then have "list_all (\<lambda>i. i < length data) [0..<nat sz]" by (auto simp: list_all_iff)
  then show ?thesis using True by (simp add: ConstantInit_def ConstantInit_loop_eq fold_fill_upt)
next
  case False
  then have "\<not> list_all (\<lambda>i. i < length data) [0..<nat sz]"
    by (auto simp: list_all_iff intro!: bexI [of _ "length data"])
  then show ?thesis using False by (simp add: ConstantInit_def ConstantInit_loop_eq)
qed

subsection \<open>A run in which nothing fails\<close>

text \<open>
  With sizes in range and every allocation and runtime call succeeding, each part of
  \<open>MatrixMultiply\<close> hands its buffers to the next, and for a supported tile size and
  \<open>wA\<close> at most \<open>wB\<close> the function returns.
\<close>

lemma mem_size_small:
  assumes "x * y < (2::nat) ^ 30"
  shows "u32 (x * y) = x * y" "u32 (4 * (x * y)) = 4 * (x * y)" "mem_size x y = 4 * (x * y)"
    "nat (to_int (x * y)) = x * y"
proof -
  show a: "u32 (x * y) = x * y" using assms by (simp add: u32_def)
  show b: "u32 (4 * (x * y)) = 4 * (x * y)" using assms by (simp add: u32_def)
  show "mem_size x y = 4 * (x * y)" using a b by (simp add: mem_size_def)
  have "to_int (x * y) = int (x * y)" using assms by (simp add: to_int_def u32_def)
  then show "nat (to_int (x * y)) = x * y" by (simp only: nat_int)
qed

lemma length_fresh: "length (fresh env buf (4 * n)) = n"
  by (simp add: fresh_def)

lemma memcpy_whole: "length src = n \<Longrightarrow> length dst = n \<Longrightarrow> memcpy dst src (4 * n) = Some src"
  by (simp add: memcpy_def)

lemma host_setup_ok:
  assumes ok: "all_ok env" and r: "in_range dimsA dimsB"
  shows "host_setup env dimsA dimsB =
     ([Malloc h_A (4 * (fst dimsA * snd dimsA)) True, Malloc h_B (4 * (fst dimsB * snd dimsB)) True,
       Malloc h_C (4 * (fst dimsB * snd dimsA)) True],
      Inr (replicate (fst dimsA * snd dimsA) 1, replicate (fst dimsB * snd dimsB) (valB env)))"
proof -
  have a: "fst dimsA * snd dimsA < 2 ^ 30" and b: "fst dimsB * snd dimsB < 2 ^ 30"
    and c: "fst dimsB * snd dimsA < 2 ^ 30" using r by (simp_all add: in_range_def)
  have m: "malloc_ok env h_A" "malloc_ok env h_B" "malloc_ok env h_C"
    using ok by (simp_all add: all_ok_def)
  show ?thesis
    by (simp add: host_setup_def Let_def mem_size_small [OF a] mem_size_small [OF b]
        mem_size_small [OF c] malloc_def m ConstantInit_eq length_fresh)
qed

lemma device_setup_ok:
  assumes ok: "all_ok env" and r: "in_range dimsA dimsB"
    and lA: "length hA = fst dimsA * snd dimsA" and lB: "length hB = fst dimsB * snd dimsB"
  shows "device_setup env dimsA dimsB (hA, hB) =
     ([Cuda (cudaMalloc d_A (4 * (fst dimsA * snd dimsA))) True,
       Cuda (cudaMalloc d_B (4 * (fst dimsB * snd dimsB))) True,
       Cuda (cudaMalloc d_C (4 * (fst dimsB * snd dimsA))) True,
       Cuda (cudaMemcpy d_A h_A (4 * (fst dimsA * snd dimsA))) True,
       Cuda (cudaMemcpy d_B h_B (4 * (fst dimsB * snd dimsB))) True],
      Inr (hA, hB, fresh env d_C (4 * (fst dimsB * snd dimsA))))"
proof -
  have a: "fst dimsA * snd dimsA < 2 ^ 30" and b: "fst dimsB * snd dimsB < 2 ^ 30"
    and c: "fst dimsB * snd dimsA < 2 ^ 30" using r by (simp_all add: in_range_def)
  have m: "\<And>c. cuda_ok env c" using ok by (simp add: all_ok_def)
  show ?thesis
    by (simp add: device_setup_def Let_def mem_size_small [OF a] mem_size_small [OF b]
        mem_size_small [OF c] checked_ok m checkCudaErrors_ok seq_Inr
        memcpy_whole [OF lA length_fresh] memcpy_whole [OF lB length_fresh])
qed

lemma fst_invoke: "fst (invoke env cfg j dA dB dC) = [Launch cfg]"
  by (simp add: invoke_def split: option.splits)

lemma schedule_scheduled: "schedule cfg (scheduled env j cfg)"
  by (simp add: schedule_def scheduled_def distinct_grid_threads)

lemma invoke_ok:
  assumes g: "tiled cfg h w" and le: "wA cfg \<le> w" and wa: "wA cfg < 2 ^ 31"
    and lA: "length dA = wA cfg * h" and lB: "length dB = w * wA cfg"
    and inC: "\<And>bt. bt \<in> set (grid_threads cfg) \<Longrightarrow> C_index cfg (fst bt) (snd bt) < length dC"
  shows "\<exists>dC'. invoke env cfg j dA dB dC = ([Launch cfg], Inr dC') \<and> length dC' = length dC"
proof (cases "launchable env cfg")
  case False
  then show ?thesis by (simp add: invoke_def)
next
  case True
  have s: "set (scheduled env j cfg) \<subseteq> set (grid_threads cfg)"
    by (simp add: scheduled_def)
  from kernel_launch_inside [OF g le lA lB inC s]
  obtain dC' where run: "kernel_launch cfg dA dB (scheduled env j cfg) dC = Some dC'" by blast
  show ?thesis
    using True wa run kernel_launch_length [OF run] by (simp add: invoke_def)
qed

lemma timed_loop_ok:
  assumes g: "tiled cfg h w" and le: "wA cfg \<le> w" and wa: "wA cfg < 2 ^ 31"
    and lA: "length dA = wA cfg * h" and lB: "length dB = w * wA cfg"
    and inC: "\<And>bt. bt \<in> set (grid_threads cfg) \<Longrightarrow> C_index cfg (fst bt) (snd bt) < n"
  shows "length dC = n \<Longrightarrow>
     \<exists>dC'. timed_loop env cfg js dA dB dC = (map (\<lambda>j. Launch cfg) js, Inr dC') \<and>
       length dC' = n"
proof (induction js arbitrary: dC)
  case Nil
  then show ?case by simp
next
  case (Cons j js)
  have "\<And>bt. bt \<in> set (grid_threads cfg) \<Longrightarrow> C_index cfg (fst bt) (snd bt) < length dC"
    using inC Cons.prems by simp
  from invoke_ok [OF g le wa lA lB this]
  obtain dC1 where 1: "invoke env cfg (Suc j) dA dB dC = ([Launch cfg], Inr dC1)"
    and l1: "length dC1 = n" using Cons.prems by auto
  from Cons.IH [OF l1]
  obtain dC' where 2: "timed_loop env cfg js dA dB dC1 = (map (\<lambda>j. Launch cfg) js, Inr dC')"
    and l2: "length dC' = n" by auto
  show ?case using 1 2 l2 by (simp add: seq_Inr)
qed

lemma tiled_launch_config:
  assumes "block_size = 16 \<or> block_size = 32"
  shows "tiled (launch_config block_size dimsA dimsB) (snd dimsA) (fst dimsB)"
  using assms by (auto simp: tiled_def launch_config_def)

lemma launches_ok:
  assumes ok: "all_ok env" and bs: "block_size = 16 \<or> block_size = 32"
    and le: "fst dimsA \<le> fst dimsB" and wa: "fst dimsA < 2 ^ 31"
    and lA: "length dA = fst dimsA * snd dimsA" and lB: "length dB = fst dimsB * fst dimsA"
    and inC: "\<And>bt. bt \<in> set (grid_threads (launch_config block_size dimsA dimsB)) \<Longrightarrow>
       C_index (launch_config block_size dimsA dimsB) (fst bt) (snd bt) < length dC"
  shows "\<exists>tr dC'. launches env block_size dimsA dimsB (dA, dB, dC) = (tr, Inr dC') \<and>
     length dC' = length dC"
proof -
  let ?cfg = "launch_config block_size dimsA dimsB"
  note g = tiled_launch_config [OF bs, of dimsA dimsB]
  have w: "wA ?cfg = fst dimsA" by (simp add: launch_config_def)
  have le': "wA ?cfg \<le> fst dimsB" and wa': "wA ?cfg < 2 ^ 31"
    and lA': "length dA = wA ?cfg * snd dimsA" and lB': "length dB = fst dimsB * wA ?cfg"
    using le wa lA lB by (simp_all add: w)
  from invoke_ok [OF g le' wa' lA' lB' inC]
  obtain dC1 where 1: "invoke env ?cfg 0 dA dB dC = ([Launch ?cfg], Inr dC1)"
    and l1: "length dC1 = length dC" by blast
  from timed_loop_ok [OF g le' wa' lA' lB' inC l1, of env "[0..<nIter]"]
  obtain dC2 where 2: "timed_loop env ?cfg [0..<nIter] dA dB dC1 =
      (map (\<lambda>j. Launch ?cfg) [0..<nIter], Inr dC2)" and l2: "length dC2 = length dC1"
    using l1 by auto
  have m: "\<And>c. cuda_ok env c" using ok by (simp add: all_ok_def)
  have "block_size \<noteq> 0" using bs by auto
  then show ?thesis
    using l1 l2 by (simp add: launches_def Let_def seq_Inr 1 2 checked_ok m del: checked.simps)
qed

lemma copy_back_ok:
  assumes ok: "all_ok env" and c: "fst dimsB * snd dimsA < 2 ^ 30"
    and lC: "length dC = fst dimsB * snd dimsA"
  shows "copy_back env dimsA dimsB dC =
     ([Cuda (cudaMemcpy h_C d_C (4 * (fst dimsB * snd dimsA))) True], Inr dC)"
proof -
  have m: "malloc_ok env h_C" "\<And>c. cuda_ok env c" using ok by (simp_all add: all_ok_def)
  show ?thesis
    by (simp add: copy_back_def Let_def mem_size_small [OF c] malloc_def m
        memcpy_whole [OF lC length_fresh] checkCudaErrors_ok seq_Inr)
qed

lemma compute_ok:
  assumes ok: "all_ok env" and bs: "block_size = 16 \<or> block_size = 32"
    and eq: "fst dimsA = snd dimsB" and le: "fst dimsA \<le> fst dimsB"
    and r: "in_range dimsA dimsB"
  shows "\<exists>tr hC. compute env block_size dimsA dimsB = (tr, Inr hC) \<and>
     length hC = fst dimsB * snd dimsA"
proof -
  have c: "fst dimsB * snd dimsA < 2 ^ 30" and wa: "fst dimsA < 2 ^ 31"
    using r by (simp_all add: in_range_def)
  let ?hA = "replicate (fst dimsA * snd dimsA) (1::'a)"
  let ?hB = "replicate (fst dimsB * snd dimsB) (valB env)"
  let ?dC = "fresh env d_C (4 * (fst dimsB * snd dimsA))"
  have lA: "length ?hA = fst dimsA * snd dimsA" and lB: "length ?hB = fst dimsB * snd dimsB"
    and lB': "length ?hB = fst dimsB * fst dimsA" and lC: "length ?dC = fst dimsB * snd dimsA"
    using eq by (simp_all add: length_fresh)
  have inC: "C_index (launch_config block_size dimsA dimsB) (fst bt) (snd bt) < length ?dC"
    if u: "bt \<in> set (grid_threads (launch_config block_size dimsA dimsB))" for bt
  proof -
    have "wA (launch_config block_size dimsA dimsB) \<le> fst dimsB"
      using le by (simp add: launch_config_def)
    from C_index_bound [OF tiled_launch_config [OF bs] grid_threadsD [OF u] this]
    show ?thesis by (simp add: lC)
  qed
  from launches_ok [OF ok bs le wa lA lB' inC]
  obtain tr dC' where 1: "launches env block_size dimsA dimsB (?hA, ?hB, ?dC) = (tr, Inr dC')"
    and l1: "length dC' = fst dimsB * snd dimsA" using lC by auto
  show ?thesis
    using l1 by (simp add: compute_def host_setup_ok [OF ok r] seq_Inr
        device_setup_ok [OF ok r lA lB] 1 copy_back_ok [OF ok c l1])
qed

subsection \<open>Runs that return\<close>

lemma check_loop_Inr:
  "check_loop env w hC js c0 = (tr, Inr correct) \<longleftrightarrow>
     list_all (\<lambda>i. i < length hC) js \<and>
     correct = (c0 \<and> list_all (\<lambda>i. \<not> eps env < rel_err env w (hC ! i)) js) \<and>
     tr = map (\<lambda>i. PrintError i (hC ! i) (of_uint env w * valB env))
            (filter (\<lambda>i. eps env < rel_err env w (hC ! i)) js)"
proof (induction js arbitrary: c0 tr)
  case Nil
  show ?case by auto
next
  case (Cons i js)
  show ?case
  proof (cases "i < length hC")
    case False
    then show ?thesis by (simp add: ld_def)
  next
    case True
    then show ?thesis
      by (auto simp: ld_def seq_eq_Inr Cons)
  qed
qed

lemma cleanup_Inr:
  "cleanup env = (tr, Inr ()) \<longleftrightarrow>
     list_all (cuda_ok env) [cudaFree d_A, cudaFree d_B, cudaFree d_C] \<and>
     tr = [Free h_A, Free h_B, Free h_C, Cuda (cudaFree d_A) True, Cuda (cudaFree d_B) True,
           Cuda (cudaFree d_C) True,
           Printf ''NOTE: The CUDA Samples are not meant for performance measurements.'']"
  by (auto simp: cleanup_def seq_eq_Inr checked_Inr simp del: checked.simps)

lemma validate_Inr:
  "validate env dimsA dimsB hC = (tr, Inr correct) \<longleftrightarrow>
     loop_count dimsA dimsB \<le> length hC \<and>
     correct = (\<forall>i<loop_count dimsA dimsB. \<not> eps env < rel_err env (fst dimsA) (hC ! i)) \<and>
     tr = Printf ''Checking computed result for correctness: '' #
          map (\<lambda>i. PrintError i (hC ! i) (of_uint env (fst dimsA) * valB env))
            (filter (\<lambda>i. eps env < rel_err env (fst dimsA) (hC ! i)) [0..<loop_count dimsA dimsB]) @
          [Printf (if correct then ''Result = PASS'' else ''Result = FAIL'')]"
proof -
  have a: "list_all (\<lambda>i. i < length hC) [0..<loop_count dimsA dimsB] \<longleftrightarrow>
      loop_count dimsA dimsB \<le> length hC"
    by (auto simp: list_all_iff)
  have b: "list_all (\<lambda>i. \<not> eps env < rel_err env (fst dimsA) (hC ! i)) [0..<loop_count dimsA dimsB] \<longleftrightarrow>
      (\<forall>i<loop_count dimsA dimsB. \<not> eps env < rel_err env (fst dimsA) (hC ! i))"
    by (auto simp: list_all_iff)
  show ?thesis
    unfolding validate_def seq_eq_Inr check_loop_Inr a b by auto
qed

lemma MatrixMultiply_Inr:
  "MatrixMultiply env block_size dimsA dimsB = (tr, Inr c) \<longleftrightarrow>
     (\<exists>tr1 hC tr2 correct tr3.
        compute env block_size dimsA dimsB = (tr1, Inr hC) \<and>
        validate env dimsA dimsB hC = (tr2, Inr correct) \<and>
        cleanup env = (tr3, Inr ()) \<and>
        c = (if correct then EXIT_SUCCESS else EXIT_FAILURE) \<and>
        tr = tr1 @ tr2 @ tr3)"
proof
  assume "MatrixMultiply env block_size dimsA dimsB = (tr, Inr c)"
  then obtain tr1 hC r1 where 1: "compute env block_size dimsA dimsB = (tr1, Inr hC)"
    and 2: "seq (validate env dimsA dimsB hC)
       (\<lambda>correct. seq (cleanup env)
         (\<lambda>_. ([], Inr (if correct then EXIT_SUCCESS else EXIT_FAILURE)))) = (r1, Inr c)"
    and t1: "tr = tr1 @ r1"
    unfolding MatrixMultiply_def seq_eq_Inr by blast
  from 2 obtain tr2 correct r2 where 3: "validate env dimsA dimsB hC = (tr2, Inr correct)"
    and 4: "seq (cleanup env)
         (\<lambda>_. ([], Inr (if correct then EXIT_SUCCESS else EXIT_FAILURE))) = (r2, Inr c)"
    and t2: "r1 = tr2 @ r2"
    unfolding seq_eq_Inr by blast
  from 4 obtain tr3 where 5: "cleanup env = (tr3, Inr ())"
    and 6: "c = (if correct then EXIT_SUCCESS else EXIT_FAILURE)" and t3: "r2 = tr3"
    unfolding seq_eq_Inr by auto
  show "\<exists>tr1 hC tr2 correct tr3.
        compute env block_size dimsA dimsB = (tr1, Inr hC) \<and>
        validate env dimsA dimsB hC = (tr2, Inr correct) \<and>
        cleanup env = (tr3, Inr ()) \<and>
        c = (if correct then EXIT_SUCCESS else EXIT_FAILURE) \<and>
        tr = tr1 @ tr2 @ tr3"
    using 1 3 5 6 t1 t2 t3 by blast
next
  assume "\<exists>tr1 hC tr2 correct tr3.
        compute env block_size dimsA dimsB = (tr1, Inr hC) \<and>
        validate env dimsA dimsB hC = (tr2, Inr correct) \<and>
        cleanup env = (tr3, Inr ()) \<and>
        c = (if correct then EXIT_SUCCESS else EXIT_FAILURE) \<and>
        tr = tr1 @ tr2 @ tr3"
  then show "MatrixMultiply env block_size dimsA dimsB = (tr, Inr c)"
    by (auto simp: MatrixMultiply_def seq_Inr)
qed

lemma MatrixMultiply_returns:
  assumes ok: "all_ok env" and bs: "block_size = 16 \<or> block_size = 32"
    and eq: "fst dimsA = snd dimsB" and le: "fst dimsA \<le> fst dimsB"
    and r: "in_range dimsA dimsB"
  shows "\<exists>tr c. MatrixMultiply env block_size dimsA dimsB = (tr, Inr c)"
proof -
  from compute_ok [OF ok bs eq le r]
  obtain tr1 hC where 1: "compute env block_size dimsA dimsB = (tr1, Inr hC)"
    and l: "length hC = fst dimsB * snd dimsA" by blast
  have c: "fst dimsB * snd dimsA < 2 ^ 30" using r by (simp add: in_range_def)
  have n: "loop_count dimsA dimsB = fst dimsB * snd dimsA"
    by (simp add: loop_count_def mem_size_small [OF c])
  obtain tr2 correct where 2: "validate env dimsA dimsB hC = (tr2, Inr correct)"
    using validate_Inr [of env dimsA dimsB hC] n l by auto
  obtain tr3 where 3: "cleanup env = (tr3, Inr ())"
    using cleanup_Inr [of env] ok by (auto simp: all_ok_def)
  show ?thesis using 1 2 3 by (auto simp: MatrixMultiply_Inr)
qed

lemma result_C_compute:
  "compute env block_size dimsA dimsB = (tr, Inr hC) \<Longrightarrow> result_C env block_size dimsA dimsB = Some hC"
  by (simp add: result_C_def)

lemma unreleased_after_cleanup:
  "foldl track live [Free h_A, Free h_B, Free h_C, Cuda (cudaFree d_A) True,
      Cuda (cudaFree d_B) True, Cuda (cudaFree d_C) True, Printf s] = []"
proof -
  let ?rest = "removeAll d_C (removeAll d_B (removeAll d_A (removeAll h_C (removeAll h_B
      (removeAll h_A live)))))"
  have "set ?rest = {}"
  proof (rule equals0I)
    fix b assume "b \<in> set ?rest"
    then have "b \<noteq> h_A \<and> b \<noteq> h_B \<and> b \<noteq> h_C \<and> b \<noteq> d_A \<and> b \<noteq> d_B \<and> b \<noteq> d_C"
      by simp
    then show False by (metis buffer.exhaust)
  qed
  then have "?rest = []" by (simp only: set_empty)
  then show ?thesis by simp
qed

subsection \<open>The events of a run\<close>

lemma list_all_seq:
  assumes "list_all P (fst p)" and "\<And>a. list_all P (fst (k a))"
  shows "list_all P (fst (seq p k))"
  using assms by (simp add: fst_seq split: sum.splits)

lemma checkCudaErrors_events:
  "housekeeping P \<Longrightarrow> list_all P (fst (checkCudaErrors env c))"
  by (simp add: checkCudaErrors_def housekeeping_def)

lemma checked_events: "housekeeping P \<Longrightarrow> list_all P (fst (checked env cs))"
  by (induction cs) (simp_all add: list_all_seq checkCudaErrors_events)

lemma host_setup_events: "housekeeping P \<Longrightarrow> list_all P (fst (host_setup env dimsA dimsB))"
  by (simp add: host_setup_def Let_def housekeeping_def split: option.splits)

lemma device_setup_events:
  assumes "housekeeping P"
  shows "list_all P (fst (device_setup env dimsA dimsB host))"
  unfolding device_setup_def Let_def
  by (intro list_all_seq checked_events checkCudaErrors_events assms)
    (auto split: option.splits intro!: list_all_seq checkCudaErrors_events assms)

lemma timed_loop_events:
  "P (Launch cfg) \<Longrightarrow> list_all P (fst (timed_loop env cfg js dA dB dC))"
  by (induction js arbitrary: dC) (simp_all add: list_all_seq fst_invoke)

lemma launches_events:
  assumes h: "housekeeping P" and l: "P (Launch (launch_config block_size dimsA dimsB))"
  shows "list_all P (fst (launches env block_size dimsA dimsB dev))"
proof -
  have p: "\<And>s. P (Printf s)" "P DeviceSynchronize" using h by (simp_all add: housekeeping_def)
  show ?thesis
    unfolding launches_def Let_def
    by (auto intro!: list_all_seq checked_events [OF h] timed_loop_events l
        simp: fst_invoke l p simp del: checked.simps)
qed

lemma copy_back_events: "housekeeping P \<Longrightarrow> list_all P (fst (copy_back env dimsA dimsB dC))"
  by (auto simp: copy_back_def Let_def split: option.splits
      intro!: list_all_seq checkCudaErrors_events)

lemma compute_events:
  assumes h: "housekeeping P" and l: "P (Launch (launch_config block_size dimsA dimsB))"
  shows "list_all P (fst (compute env block_size dimsA dimsB))"
  unfolding compute_def
  by (intro list_all_seq host_setup_events device_setup_events launches_events
      copy_back_events h l)

lemma check_loop_events:
  "(\<And>i c r. P (PrintError i c r)) \<Longrightarrow> list_all P (fst (check_loop env w hC js c0))"
  by (induction js arbitrary: c0) (auto simp: list_all_seq split: option.splits)

lemma validate_events:
  assumes h: "housekeeping P" and e: "\<And>i c r. P (PrintError i c r)"
  shows "list_all P (fst (validate env dimsA dimsB hC))"
proof -
  have p: "\<And>s. P (Printf s)" using h by (simp add: housekeeping_def)
  show ?thesis
    unfolding validate_def by (auto intro!: list_all_seq check_loop_events e simp: p)
qed

lemma cleanup_events: "housekeeping P \<Longrightarrow> list_all P (fst (cleanup env))"
  unfolding cleanup_def
  by (auto intro!: list_all_seq checked_events simp: housekeeping_def simp del: checked.simps)

lemma MatrixMultiply_events:
  assumes h: "housekeeping P" and l: "P (Launch (launch_config block_size dimsA dimsB))"
    and e: "\<And>i c r. P (PrintError i c r)"
  shows "list_all P (fst (MatrixMultiply env block_size dimsA dimsB))"
  unfolding MatrixMultiply_def
  by (auto intro!: list_all_seq compute_events validate_events cleanup_events h l e)

lemma main_events:
  assumes h: "housekeeping P"
    and l: "P (Launch (launch_config 32 (fst (configured a)) (snd (configured a))))"
    and e: "\<And>i c r. P (PrintError i c r)"
  shows "list_all P (fst (main env a))"
proof -
  have p: "\<And>s. P (Printf s)" "P FindCudaDevice" "\<And>a b c d. P (PrintDims a b c d)"
    "\<And>a b. P (PrintMismatch a b)" using h by (simp_all add: housekeeping_def)
  show ?thesis
    unfolding main_def Let_def
    by (auto intro!: list_all_seq MatrixMultiply_events h l e simp: p)
qed

subsection \<open>The example environments\<close>

lemma all_ok_env0: "all_ok env0"
  by (simp add: all_ok_def env0_def)

lemma loop_count_small:
  "fst dimsB * snd dimsA < 2 ^ 31 \<Longrightarrow> loop_count dimsA dimsB = fst dimsB * snd dimsA"
proof -
  assume a: "fst dimsB * snd dimsA < 2 ^ 31"
  then have "to_int (u32 (fst dimsB * snd dimsA)) = int (fst dimsB * snd dimsA)"
    by (simp add: to_int_def u32_def)
  then show ?thesis by (simp only: loop_count_def nat_int)
qed


lemma configured_args32: "configured args32 = ((32, 32), (32, 32))"
  by (simp add: configured_def args32_def override_def)





lemma host_setup_no_C:
  assumes "malloc_ok env h_A" "malloc_ok env h_B" "\<not> malloc_ok env h_C"
  shows "host_setup env (32, 32) (32, 32) =
     ([Malloc h_A 4096 True, Malloc h_B 4096 True, Malloc h_C 4096 False,
       Printf ''Failed to allocate host matrix C!''], Inl (Exited EXIT_FAILURE))"
  using assms
  by (simp add: host_setup_def Let_def u32_def to_int_def mem_size_def malloc_def
      ConstantInit_eq fresh_def)

lemma launch_reached:
  assumes ok: "all_ok env" and r: "in_range dimsA dimsB" and bs: "block_size \<noteq> 0"
  shows "Launch (launch_config block_size dimsA dimsB)
     \<in> set (fst (MatrixMultiply env block_size dimsA dimsB))"
  using bs
  by (simp add: MatrixMultiply_def compute_def fst_seq host_setup_ok [OF ok r]
      device_setup_ok [OF ok r] launches_def Let_def fst_invoke)

lemma Launch_in_events:
  assumes "list_all (\<lambda>e. case e of Launch c \<Rightarrow> c = cfg0 | _ \<Rightarrow> True) tr" "Launch cfg \<in> set tr"
  shows "cfg = cfg0"
  using assms by (auto simp: list_all_iff)

lemma in_range_32: "in_range (32, 32) (32, 32)"
  by (simp add: in_range_def)

lemma main_trace:
  assumes "\<not> flag_help a" "findCudaDevice env = None" "configured a = (dimsA, dimsB)"
    "fst dimsA = snd dimsB"
  shows "set (fst (MatrixMultiply env 32 dimsA dimsB)) \<subseteq> set (fst (main env a))"
  using assms by (auto simp: main_def Let_def fst_seq split: sum.splits)

subsection \<open>Constant inputs: the square case\<close>

text \<open>
  With \<open>wA = hB = wB\<close>, dimensions that are multiples of a supported tile size and a
  runtime that accepts the launch, \<open>h_C\<close> is filled with one value, the sum \<open>const_sum\<close> of
  \<open>wA\<close> products \<open>1 * valB\<close>, and the return code is decided by that value alone.
\<close>

lemma invoke_const:
  assumes g: "tiled cfg h w" and w: "wA cfg = w" and wa: "wA cfg < 2 ^ 31"
    and dw: "BLOCK_SIZE cfg dvd w" and dh: "BLOCK_SIZE cfg dvd h" and pos: "0 < BLOCK_SIZE cfg"
    and lC: "length dC = w * h" and go: "launchable env cfg"
  shows "invoke env cfg j (replicate (wA cfg * h) a) (replicate (w * wA cfg) b) dC =
     ([Launch cfg],
      Inr (replicate (w * h) (const_sum (wA cfg div BLOCK_SIZE cfg) (BLOCK_SIZE cfg) a b)))"
  using go wa by (simp add: invoke_def kernel_launch_const [OF g w dw dh pos lC schedule_scheduled])

lemma timed_loop_const:
  assumes g: "tiled cfg h w" and w: "wA cfg = w" and wa: "wA cfg < 2 ^ 31"
    and dw: "BLOCK_SIZE cfg dvd w" and dh: "BLOCK_SIZE cfg dvd h" and pos: "0 < BLOCK_SIZE cfg"
    and go: "launchable env cfg"
    and R: "R = replicate (w * h) (const_sum (wA cfg div BLOCK_SIZE cfg) (BLOCK_SIZE cfg) a b)"
  shows "timed_loop env cfg js (replicate (wA cfg * h) a) (replicate (w * wA cfg) b) R =
     (map (\<lambda>j. Launch cfg) js, Inr R)"
proof (induction js)
  case Nil
  show ?case by simp
next
  case (Cons j js)
  have l: "length R = w * h" by (simp add: R)
  show ?case
    by (simp add: invoke_const [OF g w wa dw dh pos l go] R [symmetric] seq_Inr Cons)
qed

lemma compute_const:
  assumes ok: "all_ok env" and bs: "block_size = 16 \<or> block_size = 32"
    and eq: "fst dimsA = snd dimsB" and sq: "fst dimsA = fst dimsB"
    and dw: "block_size dvd fst dimsB" and dh: "block_size dvd snd dimsA"
    and r: "in_range dimsA dimsB"
    and go: "launchable env (launch_config block_size dimsA dimsB)"
  shows "\<exists>tr. compute env block_size dimsA dimsB =
     (tr, Inr (replicate (fst dimsB * snd dimsA)
        (const_sum (fst dimsA div block_size) block_size 1 (valB env))))"
proof -
  let ?cfg = "launch_config block_size dimsA dimsB"
  let ?R = "replicate (fst dimsB * snd dimsA)
        (const_sum (fst dimsA div block_size) block_size 1 (valB env))"
  note g = tiled_launch_config [OF bs, of dimsA dimsB]
  have B: "BLOCK_SIZE ?cfg = block_size" using bs by (auto simp: launch_config_def)
  have w: "wA ?cfg = fst dimsB" using sq by (simp add: launch_config_def)
  have c: "fst dimsB * snd dimsA < 2 ^ 30" and wa: "wA ?cfg < 2 ^ 31"
    using r by (simp_all add: in_range_def launch_config_def)
  have dw': "BLOCK_SIZE ?cfg dvd fst dimsB" and dh': "BLOCK_SIZE ?cfg dvd snd dimsA"
    and pos: "0 < BLOCK_SIZE ?cfg" using dw dh bs by (auto simp: B)
  let ?hA = "replicate (fst dimsA * snd dimsA) (1::'a)"
  let ?hB = "replicate (fst dimsB * snd dimsB) (valB env)"
  let ?dC = "fresh env d_C (4 * (fst dimsB * snd dimsA))"
  have hA: "?hA = replicate (wA ?cfg * snd dimsA) 1"
    and hB: "?hB = replicate (fst dimsB * wA ?cfg) (valB env)"
    using eq sq by (simp_all add: launch_config_def)
  have R: "?R = replicate (fst dimsB * snd dimsA)
      (const_sum (wA ?cfg div BLOCK_SIZE ?cfg) (BLOCK_SIZE ?cfg) 1 (valB env))"
    using sq by (simp add: B w)
  have lC: "length ?dC = fst dimsB * snd dimsA" by (simp add: length_fresh)
  have 1: "invoke env ?cfg 0 ?hA ?hB ?dC = ([Launch ?cfg], Inr ?R)"
    unfolding hA hB R by (rule invoke_const [OF g w wa dw' dh' pos lC go])
  have 2: "timed_loop env ?cfg [0..<nIter] ?hA ?hB ?R = (map (\<lambda>j. Launch ?cfg) [0..<nIter], Inr ?R)"
    unfolding hA hB by (rule timed_loop_const [OF g w wa dw' dh' pos go R])
  have m: "\<And>c. cuda_ok env c" using ok by (simp add: all_ok_def)
  have nz: "block_size \<noteq> 0" using bs by auto
  have 3: "\<exists>tr. launches env block_size dimsA dimsB (?hA, ?hB, ?dC) = (tr, Inr ?R)"
    using nz by (simp add: launches_def Let_def seq_Inr 1 2 checked_ok m del: checked.simps)
  then obtain tr where 4: "launches env block_size dimsA dimsB (?hA, ?hB, ?dC) = (tr, Inr ?R)" ..
  have lR: "length ?R = fst dimsB * snd dimsA" by simp
  have lA: "length ?hA = fst dimsA * snd dimsA" and lB: "length ?hB = fst dimsB * snd dimsB"
    by simp_all
  show ?thesis
    by (simp add: compute_def host_setup_ok [OF ok r] seq_Inr
        device_setup_ok [OF ok r lA lB] 4 copy_back_ok [OF ok c lR])
qed

lemma MatrixMultiply_const:
  assumes ok: "all_ok env" and bs: "block_size = 16 \<or> block_size = 32"
    and eq: "fst dimsA = snd dimsB" and sq: "fst dimsA = fst dimsB"
    and dw: "block_size dvd fst dimsB" and dh: "block_size dvd snd dimsA"
    and r: "in_range dimsA dimsB"
    and go: "launchable env (launch_config block_size dimsA dimsB)"
    and v: "v = const_sum (fst dimsA div block_size) block_size 1 (valB env)"
  shows "\<exists>tr. MatrixMultiply env block_size dimsA dimsB =
       (tr, Inr (if 0 < fst dimsB * snd dimsA \<and> eps env < rel_err env (fst dimsA) v
                 then EXIT_FAILURE else EXIT_SUCCESS))"
    and "result_C env block_size dimsA dimsB = Some (replicate (fst dimsB * snd dimsA) v)"
proof -
  let ?n = "fst dimsB * snd dimsA"
  from compute_const [OF ok bs eq sq dw dh r go]
  obtain tr1 where 1: "compute env block_size dimsA dimsB = (tr1, Inr (replicate ?n v))"
    unfolding v by blast
  show "result_C env block_size dimsA dimsB = Some (replicate ?n v)"
    by (rule result_C_compute [OF 1])
  have c: "?n < 2 ^ 30" using r by (simp add: in_range_def)
  have n: "loop_count dimsA dimsB = ?n" using c by (simp add: loop_count_small)
  let ?correct = "\<forall>i<loop_count dimsA dimsB. \<not> eps env < rel_err env (fst dimsA) (replicate ?n v ! i)"
  obtain tr2 where 2: "validate env dimsA dimsB (replicate ?n v) = (tr2, Inr ?correct)"
    using validate_Inr [of env dimsA dimsB "replicate ?n v" _ ?correct] n by simp
  have cc: "?correct \<longleftrightarrow> \<not> (0 < ?n \<and> eps env < rel_err env (fst dimsA) v)"
  proof (cases "0 < ?n")
    case True
    then have "(\<forall>i<?n. \<not> eps env < rel_err env (fst dimsA) (replicate ?n v ! i)) \<longleftrightarrow>
        \<not> eps env < rel_err env (fst dimsA) v"
      by (metis nth_replicate)
    then show ?thesis unfolding n using True by simp
  next
    case False
    then have "?n = 0" by simp
    then show ?thesis unfolding n by (simp only: not_less_zero simp_thms)
  qed
  obtain tr3 where 3: "cleanup env = (tr3, Inr ())"
    using cleanup_Inr [of env] ok by (auto simp: all_ok_def)
  have "MatrixMultiply env block_size dimsA dimsB =
      (tr1 @ tr2 @ tr3, Inr (if ?correct then EXIT_SUCCESS else EXIT_FAILURE))"
    unfolding MatrixMultiply_Inr using 1 2 3 by blast
  then show "\<exists>tr. MatrixMultiply env block_size dimsA dimsB =
       (tr, Inr (if 0 < fst dimsB * snd dimsA \<and> eps env < rel_err env (fst dimsA) v
                 then EXIT_FAILURE else EXIT_SUCCESS))"
    unfolding cc by auto
qed

lemma env0_passes:
  "\<exists>tr. MatrixMultiply env0 32 (32, 32) (32, 32) = (tr, Inr EXIT_SUCCESS)"
  "result_C env0 32 (32, 32) (32, 32) = Some (replicate 1024 (8 / 25))"
proof -
  have v: "(8 / 25 :: rat) = const_sum (fst (32::nat, 32::nat) div 32) 32 1 (valB env0)"
    by (simp add: const_sum_def env0_def upt_rec)
  have go: "launchable env0 (launch_config 32 (32, 32) (32, 32))" by (simp add: env0_def)
  have e: "\<not> eps env0 < rel_err env0 32 (8 / 25)"
    by (simp add: rel_err_def env0_def)
  from MatrixMultiply_const(1) [OF all_ok_env0 _ _ _ _ _ in_range_32 go v]
  show "\<exists>tr. MatrixMultiply env0 32 (32, 32) (32, 32) = (tr, Inr EXIT_SUCCESS)"
    using e by simp
  from MatrixMultiply_const(2) [OF all_ok_env0 _ _ _ _ _ in_range_32 go v]
  show "result_C env0 32 (32, 32) (32, 32) = Some (replicate 1024 (8 / 25))"
    by simp
qed

subsection \<open>A refused launch\<close>





subsection \<open>Elements no thread stores to\<close>

lemma invoke_untouched:
  assumes "invoke env cfg j dA dB dC = (tr, Inr dC')"
    and "\<And>bt. bt \<in> set (grid_threads cfg) \<Longrightarrow> C_index cfg (fst bt) (snd bt) \<noteq> p"
    and wa: "wA cfg < 2 ^ 31"
  shows "dC' ! p = dC ! p"
proof (cases "launchable env cfg")
  case False
  then show ?thesis using assms(1) by (simp add: invoke_def)
next
  case True
  then have run: "kernel_launch cfg dA dB (scheduled env j cfg) dC = Some dC'"
    using assms(1) wa by (auto simp: invoke_def split: if_splits option.splits)
  show ?thesis
    by (rule kernel_launch_untouched [OF run]) (simp add: scheduled_def assms(2))
qed

lemma timed_loop_untouched:
  assumes "timed_loop env cfg js dA dB dC = (tr, Inr dC')"
    and "\<And>bt. bt \<in> set (grid_threads cfg) \<Longrightarrow> C_index cfg (fst bt) (snd bt) \<noteq> p"
    and wa: "wA cfg < 2 ^ 31"
  shows "dC' ! p = dC ! p"
  using assms(1)
proof (induction js arbitrary: dC tr)
  case Nil
  then show ?case by simp
next
  case (Cons j js)
  from Cons.prems obtain tr1 dC1 tr2 where 1: "invoke env cfg (Suc j) dA dB dC = (tr1, Inr dC1)"
    and 2: "timed_loop env cfg js dA dB dC1 = (tr2, Inr dC')"
    by (auto simp: seq_eq_Inr)
  show ?case using Cons.IH [OF 2] invoke_untouched [OF 1 assms(2) wa] by simp
qed

lemma launches_untouched:
  assumes l: "launches env block_size dimsA dimsB (dA, dB, dC) = (tr, Inr dC')"
    and u: "\<And>bt. bt \<in> set (grid_threads (launch_config block_size dimsA dimsB)) \<Longrightarrow>
       C_index (launch_config block_size dimsA dimsB) (fst bt) (snd bt) \<noteq> p"
    and wa: "fst dimsA < 2 ^ 31"
  shows "dC' ! p = dC ! p"
proof -
  let ?cfg = "launch_config block_size dimsA dimsB"
  have wa': "wA ?cfg < 2 ^ 31" using wa by (simp add: launch_config_def)
  have nz: "block_size \<noteq> 0" using l by (auto simp: launches_def split: if_splits)
  from l nz obtain t1 dC1 r1 where 1: "invoke env ?cfg 0 dA dB dC = (t1, Inr dC1)"
    and 2: "seq ([Printf ''done'', DeviceSynchronize], Inr ())
        (\<lambda>_. seq (checked env [cudaEventCreate start, cudaEventCreate stop, cudaEventRecord start])
        (\<lambda>_. seq (timed_loop env ?cfg [0..<nIter] dA dB dC1)
        (\<lambda>dC. seq (checked env [cudaEventRecord stop, cudaEventSynchronize stop,
                      cudaEventElapsedTime])
        (\<lambda>_. ([Printf ''Performance''], Inr dC))))) = (r1, Inr dC')"
    unfolding launches_def Let_def by (auto simp: seq_eq_Inr simp del: checked.simps)
  from 2 obtain t2 dC2 where 3: "timed_loop env ?cfg [0..<nIter] dA dB dC1 = (t2, Inr dC2)"
    and 4: "dC2 = dC'"
    by (auto simp: seq_eq_Inr simp del: checked.simps)
  show ?thesis
    using invoke_untouched [OF 1 u wa'] timed_loop_untouched [OF 3 u wa'] 4 by simp
qed

lemma memcpy_nth:
  assumes "memcpy dst src bytes = Some out" "p < bytes div 4"
  shows "out ! p = src ! p"
  using assms by (auto simp: memcpy_def nth_append split: if_splits)

lemma result_C_untouched:
  assumes ok: "all_ok env" and r: "in_range dimsA dimsB"
    and run: "compute env block_size dimsA dimsB = (tr, Inr hC)"
    and u: "\<And>bt. bt \<in> set (grid_threads (launch_config block_size dimsA dimsB)) \<Longrightarrow>
       C_index (launch_config block_size dimsA dimsB) (fst bt) (snd bt) \<noteq> p"
    and p: "p < fst dimsB * snd dimsA"
  shows "hC ! p = uninit env d_C p"
proof -
  let ?hA = "replicate (fst dimsA * snd dimsA) (1::'a)"
  let ?hB = "replicate (fst dimsB * snd dimsB) (valB env)"
  let ?dC = "fresh env d_C (4 * (fst dimsB * snd dimsA))"
  have c: "fst dimsB * snd dimsA < 2 ^ 30" and wa: "fst dimsA < 2 ^ 31"
    using r by (simp_all add: in_range_def)
  have lA: "length ?hA = fst dimsA * snd dimsA" and lB: "length ?hB = fst dimsB * snd dimsB"
    by simp_all
  from run obtain t1 dC' t2 where 1: "launches env block_size dimsA dimsB (?hA, ?hB, ?dC) = (t1, Inr dC')"
    and 2: "copy_back env dimsA dimsB dC' = (t2, Inr hC)"
    by (auto simp: compute_def seq_eq_Inr host_setup_ok [OF ok r] device_setup_ok [OF ok r lA lB])
  from 2 have "memcpy (malloc env h_C (4 * (fst dimsB * snd dimsA))) dC'
      (4 * (fst dimsB * snd dimsA)) = Some hC"
    by (auto simp: copy_back_def Let_def mem_size_small [OF c] seq_eq_Inr split: option.splits)
  from memcpy_nth [OF this] p have "hC ! p = dC' ! p" by simp
  also have "\<dots> = ?dC ! p" by (rule launches_untouched [OF 1 u wa])
  also have "\<dots> = uninit env d_C p" using p by (simp add: fresh_def)
  finally show ?thesis .
qed

lemma launch_config_wide32: "launch_config 32 (32, 32) (64, 32) = wide32"
  by (simp add: launch_config_def wide32_def)

lemma launch_config_tall32: "launch_config 32 (64, 32) (32, 64) = tall32"
  by (simp add: launch_config_def tall32_def)

subsection \<open>The length of the result\<close>





lemma host_setup_without_C:
  assumes "\<not> malloc_ok env h_C" and "host_setup env dimsA dimsB = (tr, r)"
    and "r \<noteq> Inl Undefined"
  shows "r = Inl (Exited EXIT_FAILURE) \<and>
     unreleased tr = filter (malloc_ok env) [h_A, h_B]"
  using assms
  by (auto simp: host_setup_def Let_def unreleased_def split: option.splits)

subsection \<open>More elements than an \<open>int\<close> counts\<close>












subsection \<open>A width that is negative as an \<open>int\<close>\<close>

text \<open>
  With \<open>wA = hB = 2 ^ 31\<close>, \<open>hA = wB = 1\<close> and blocks of one thread, the one thread of each
  launch is in row 0 and stores its 0 at \<open>C[0]\<close>; the run gets to the check.
\<close>

lemma invoke_negative_row0:
  assumes go: "launchable env cfg" and w: "2 ^ 31 \<le> wA cfg"
    and g: "blockDim cfg = (1, 1)" "gridDim cfg = (1, 1)"
  shows "invoke env cfg j dA dB [v] = ([Launch cfg], Inr [0])"
proof -
  have s: "scheduled env j cfg = [((0, 0), (0, 0))]"
    by (simp add: scheduled_def grid_threads_def block_threads_def g)
  show ?thesis
    using go w
    by (simp add: invoke_def s MatrixMulCUDA_negative_def row_def col_def g to_int_def u32_def)
qed

lemma timed_loop_negative_row0:
  assumes go: "launchable env cfg" and w: "2 ^ 31 \<le> wA cfg"
    and g: "blockDim cfg = (1, 1)" "gridDim cfg = (1, 1)"
  shows "timed_loop env cfg js dA dB [0] = (map (\<lambda>j. Launch cfg) js, Inr [0])"
  by (induction js) (simp_all add: invoke_negative_row0 [OF go w g] seq_Inr)

lemma negative_width_returns:
  "result_C env_ones 1 (2147483648, 1) (1, 2147483648) = Some [0]"
proof -
  let ?cfg = "launch_config 1 (2147483648, 1) (1, 2147483648)"
  have go: "launchable env_ones ?cfg" by (simp add: env_ones_def env0_def)
  have w: "2 ^ 31 \<le> wA ?cfg" and g: "blockDim ?cfg = (1, 1)" "gridDim ?cfg = (1, 1)"
    by (simp_all add: launch_config_def)
  have m: "\<And>c. cuda_ok env_ones c" "\<And>b. malloc_ok env_ones b" by (simp_all add: env_ones_def env0_def)
  have f: "fresh env_ones d_C 4 = [1]" "fresh env_ones d_A 0 = []" "fresh env_ones d_B 0 = []"
    "fresh env_ones h_C 4 = [1]"
    by (simp_all add: fresh_def env_ones_def)
  have h: "host_setup env_ones (2147483648, 1) (1, 2147483648) =
      ([Malloc h_A 0 True, Malloc h_B 0 True, Malloc h_C 4 True], Inr ([], []))"
    by (simp add: host_setup_def Let_def u32_def to_int_def mem_size_def malloc_def
      ConstantInit_eq fresh_def m)
  have d: "device_setup env_ones (2147483648, 1) (1, 2147483648) ([], []) =
      ([Cuda (cudaMalloc d_A 0) True, Cuda (cudaMalloc d_B 0) True, Cuda (cudaMalloc d_C 4) True,
        Cuda (cudaMemcpy d_A h_A 0) True, Cuda (cudaMemcpy d_B h_B 0) True],
       Inr ([], [], [1]))"
    by (simp add: device_setup_def Let_def mem_size_def u32_def checked_ok m checkCudaErrors_ok
        seq_Inr memcpy_def f del: checked.simps)
  have l: "snd (launches env_ones 1 (2147483648, 1) (1, 2147483648) ([], [], [1])) = Inr [0]"
    by (simp add: launches_def Let_def seq_Inr invoke_negative_row0 [OF go w g]
        timed_loop_negative_row0 [OF go w g] checked_ok m del: checked.simps One_nat_def)
  have c: "copy_back env_ones (2147483648, 1) (1, 2147483648) [0] =
      ([Cuda (cudaMemcpy h_C d_C 4) True], Inr [0])"
    by (simp add: copy_back_def Let_def mem_size_def u32_def malloc_def m memcpy_def f
        checkCudaErrors_ok seq_Inr)
  obtain t where l': "launches env_ones 1 (2147483648, 1) (1, 2147483648) ([], [], [1]) = (t, Inr [0])"
    using l by (cases "launches env_ones 1 (2147483648, 1) (1, 2147483648) ([], [], [1])") auto
  show ?thesis
    by (simp add: result_C_def compute_def h d l' c seq_Inr del: One_nat_def)
qed

section \<open>The claims\<close>

text \<open>
  Claim C1 asks that the kernel stores at \<open>C[row][col]\<close> the dot product of row \<open>row\<close> of \<open>A\<close>
  and column \<open>col\<close> of \<open>B\<close>. The code does not: the two shared arrays are filled and read
  with their subscripts exchanged. For the 32 by 32 matrices \<open>A_e\<close> and \<open>B_e\<close>, one block of
  32 by 32 threads storing in any order and any initial content \<open>c\<close> of \<open>C\<close>, the launch stores
  0 at \<open>C[0][0]\<close>, where the dot product of row 0 of \<open>A_e\<close> and column 0 of \<open>B_e\<close> is 1.
\<close>

theorem kernel_is_not_the_product:
  "map_option (\<lambda>C. C ! 0)
     (kernel_launch square32 A_e B_e (sort_key f (grid_threads square32)) (map c [0..<1024])) =
     Some 0 \<and>
   spec_dot A_e B_e 32 32 0 0 = 1"
proof -
  let ?sched = "sort_key f (grid_threads square32)"
  have w: "wA square32 = 32" by (simp add: square32_def)
  obtain C' where run: "kernel_launch square32 A_e B_e ?sched (map c [0..<1024]) = Some C'"
    and val: "\<forall>bt\<in>set ?sched.
       C' ! C_index square32 (fst bt) (snd bt) = thread_sum square32 A_e B_e (fst bt) (snd bt)"
    using kernel_launch_computes [OF tiled_square32 w, of A_e B_e "map c [0..<1024]" ?sched]
    by (auto simp: square32_def A_e_def B_e_def schedule_sort_key)
  have "((0, 0), (0, 0)) \<in> set ?sched"
    by (simp add: grid_threads_def set_block_threads square32_def)
  from bspec [OF val this] have "C' ! 0 = 0"
    by (simp add: ts0) (simp add: C_index_def row_def col_def)
  then show ?thesis by (simp add: run sd0)
qed

text \<open>
  Claim C2 asks that with constant fills every element of \<open>C\<close> holds \<open>wA * 0.01\<close>. The code
  strides its store to \<open>C\<close> by \<open>wA\<close>, not by the width \<open>wB\<close> of \<open>C\<close>. For \<open>wA = hA = hB = 32\<close>
  and \<open>wB = 64\<close>, all multiples of the tile edge 32, constant inputs \<open>a\<close> and \<open>b\<close> and any order
  of the threads, a launch stores nothing at \<open>C[2047]\<close>: the element keeps what the buffer
  held. So does the program: the element 2047 that \<open>MatrixMultiply\<close> reads back and checks
  is what the fresh device buffer \<open>d_C\<close> happened to hold.
\<close>

theorem constant_fill_leaves_C_unwritten:
  "map_option (\<lambda>C. C ! 2047)
     (kernel_launch wide32 (replicate 1024 a) (replicate 2048 b)
        (sort_key f (grid_threads wide32)) (map c [0..<2048])) = Some (c 2047) \<and>
   map_option (\<lambda>hC. hC ! 2047)
     (result_C (env0\<lparr>order := ord, uninit := u\<rparr>) 32 (32, 32) (64, 32)) = Some (u d_C 2047)"
proof
  let ?A = "replicate 1024 a" and ?B = "replicate 2048 b" and ?C = "map c [0..<2048]"
  let ?sched = "sort_key f (grid_threads wide32)"
  have w: "wA wide32 \<le> 64" by (simp add: wide32_def)
  obtain C' where run: "kernel_launch wide32 ?A ?B ?sched ?C = Some C'"
    using kernel_launch_defined [OF tiled_wide32 w, of ?A ?B ?C ?sched]
    by (auto simp: wide32_def)
  have "C' ! 2047 = ?C ! 2047"
    by (rule kernel_launch_untouched [OF run]) (simp add: wide32_untouched)
  also have "\<dots> = c 2047" by simp
  finally show "map_option (\<lambda>C. C ! 2047) (kernel_launch wide32 ?A ?B ?sched ?C) = Some (c 2047)"
    by (simp add: run)
next
  let ?env = "env0\<lparr>order := ord, uninit := u\<rparr>"
  have ok: "all_ok ?env" by (simp add: all_ok_def env0_def)
  have r: "in_range (32, 32) (64, 32)" by (simp add: in_range_def)
  from compute_ok [OF ok _ _ _ r, of 32]
  obtain tr hC where run: "compute ?env 32 (32, 32) (64, 32) = (tr, Inr hC)" by auto
  have "hC ! 2047 = uninit ?env d_C 2047"
    by (rule result_C_untouched [OF ok r run])
      (simp_all add: launch_config_wide32 wide32_untouched)
  then show "map_option (\<lambda>hC. hC ! 2047) (result_C ?env 32 (32, 32) (64, 32)) = Some (u d_C 2047)"
    by (simp add: result_C_compute [OF run])
qed




text \<open>
  Claim C4: when the configured width of \<open>A\<close> differs from the configured height of \<open>B\<close>,
  \<open>main\<close> prints the error message and exits with the failure code, and that is all it
  does after the banner and the device selection: no allocation, no launch. (A command
  line with \<open>help\<close> configures nothing, and \<open>findCudaDevice\<close> has to return.)
\<close>

theorem dimension_mismatch_rejected:
  assumes "\<not> flag_help a" and "findCudaDevice env = None"
    and "fst (fst (configured a)) \<noteq> snd (snd (configured a))"
  shows "main env a =
     ([Printf ''[Matrix Multiply Using CUDA] - Starting...'', FindCudaDevice,
       PrintMismatch (fst (fst (configured a))) (snd (snd (configured a)))],
      Inl (Exited EXIT_FAILURE))"
  using assms by (simp add: main_def Let_def seq_Inr seq_Inl)

theorem dimension_mismatch_rejected_witness:
  "main env0 args_wA64 =
     ([Printf ''[Matrix Multiply Using CUDA] - Starting...'', FindCudaDevice,
       PrintMismatch 64 320], Inl (Exited EXIT_FAILURE))"
proof -
  have c: "configured args_wA64 = ((64, 320), (320, 320))"
    by (simp add: configured_def args_wA64_def override_def)
  from dimension_mismatch_rejected [of args_wA64 env0] show ?thesis
    by (simp add: c) (simp add: args_wA64_def env0_def)
qed

text \<open>
  Claim C5 asks that every subscript of \<open>B\<close> and of \<open>C\<close> stays inside the buffer when the
  dimensions are multiples of the tile edge and \<open>wA = hB\<close>. For \<open>wA = hB = 64\<close> and
  \<open>hA = wB = 32\<close> it does not: in tile step 1 thread \<open>(0, 0)\<close> of block \<open>(0, 0)\<close> reads
  \<open>B[2048]\<close> of the \<open>wB * hB = 2048\<close> elements of \<open>B\<close>, thread \<open>(0, 16)\<close> stores to \<open>C[1024]\<close> of
  the \<open>wB * hA = 1024\<close> elements of \<open>C\<close>, the launch is undefined in any order of the threads,
  and the run of \<open>MatrixMultiply\<close> ends there, at its first launch.
\<close>

theorem stride_wA_out_of_bounds:
  "B_index tall32 (0, 0) 1 (0, 0) = 2048 \<and> \<not> B_index tall32 (0, 0) 1 (0, 0) < 32 * 64 \<and>
   C_index tall32 (0, 0) (0, 16) = 1024 \<and> \<not> C_index tall32 (0, 0) (0, 16) < 32 * 32 \<and>
   kernel_launch tall32 (replicate (64 * 32) a) (replicate (32 * 64) b)
     (sort_key f (grid_threads tall32)) (map c [0..<32 * 32]) = None \<and>
   MatrixMultiply (env0\<lparr>order := ord, uninit := u\<rparr>) 32 (64, 32) (32, 64) =
     ([Malloc h_A 8192 True, Malloc h_B 8192 True, Malloc h_C 4096 True,
       Cuda (cudaMalloc d_A 8192) True, Cuda (cudaMalloc d_B 8192) True,
       Cuda (cudaMalloc d_C 4096) True, Cuda (cudaMemcpy d_A h_A 8192) True,
       Cuda (cudaMemcpy d_B h_B 8192) True, Printf ''Computing result using CUDA Kernel...'',
       Launch tall32], Inl Undefined)"
proof -
  let ?env = "env0\<lparr>order := ord, uninit := u\<rparr>"
  let ?hA = "replicate 2048 (1::rat)"
  let ?hB = "replicate 2048 (valB env0)"
  have idx: "B_index tall32 (0, 0) 1 (0, 0) = 2048" "C_index tall32 (0, 0) (0, 16) = 1024"
    by (simp_all add: B_index_def C_index_def row_def col_def tall32_def)
  have kern: "kernel_launch tall32 (replicate (64 * 32) a) (replicate (32 * 64) b)
     (sort_key f (grid_threads tall32)) (map c [0..<32 * 32]) = None"
    by (rule tall32_launch_faults) simp
  have ok: "all_ok ?env" by (simp add: all_ok_def env0_def)
  have r: "in_range (64, 32) (32, 64)" by (simp add: in_range_def)
  have h: "host_setup ?env (64, 32) (32, 64) =
      ([Malloc h_A 8192 True, Malloc h_B 8192 True, Malloc h_C 4096 True], Inr (?hA, ?hB))"
    using host_setup_ok [OF ok r] by simp
  have d: "device_setup ?env (64, 32) (32, 64) (?hA, ?hB) =
      ([Cuda (cudaMalloc d_A 8192) True, Cuda (cudaMalloc d_B 8192) True,
        Cuda (cudaMalloc d_C 4096) True, Cuda (cudaMemcpy d_A h_A 8192) True,
        Cuda (cudaMemcpy d_B h_B 8192) True], Inr (?hA, ?hB, fresh ?env d_C 4096))"
    using device_setup_ok [OF ok r, of ?hA ?hB] by simp
  have k: "kernel_launch tall32 ?hA ?hB (scheduled ?env 0 tall32) C = None" for C
    unfolding scheduled_def by (rule tall32_launch_faults) simp
  have la: "launchable ?env tall32" by (simp add: env0_def)
  have wa: "\<not> 2 ^ 31 \<le> wA tall32" by (simp add: tall32_def)
  have i: "invoke ?env tall32 0 ?hA ?hB C = ([Launch tall32], Inl Undefined)" for C
    unfolding invoke_def by (simp only: la wa k if_False
        False_implies_equals simp_thms option.case)
  have l: "launches ?env 32 (64, 32) (32, 64) (?hA, ?hB, C) =
      ([Printf ''Computing result using CUDA Kernel...'', Launch tall32], Inl Undefined)" for C
    by (simp add: launches_def Let_def launch_config_tall32 i seq_Inr seq_Inl)
  have prog: "MatrixMultiply ?env 32 (64, 32) (32, 64) =
     ([Malloc h_A 8192 True, Malloc h_B 8192 True, Malloc h_C 4096 True,
       Cuda (cudaMalloc d_A 8192) True, Cuda (cudaMalloc d_B 8192) True,
       Cuda (cudaMalloc d_C 4096) True, Cuda (cudaMemcpy d_A h_A 8192) True,
       Cuda (cudaMemcpy d_B h_B 8192) True, Printf ''Computing result using CUDA Kernel...'',
       Launch tall32], Inl Undefined)"
    by (simp add: MatrixMultiply_def compute_def h d l seq_Inr seq_Inl)
  show ?thesis using idx kern prog by simp
qed

text \<open>
  Claim C6 as stated fails for the tile size 8: with 32 by 32 matrices the driver
  launches \<open>MatrixMulCUDA<32>\<close> on a grid of 4 by 4 blocks of 8 by 8 threads.
\<close>

theorem unsupported_tile_size_launched:
  "Launch \<lparr>BLOCK_SIZE = 32, blockDim = (8, 8), gridDim = (4, 4), wA = 32, wB = 32\<rparr>
     \<in> set (fst (MatrixMultiply env0 8 (32, 32) (32, 32)))"
  using launch_reached [OF all_ok_env0 in_range_32, of 8] by (simp add: launch_config_def)

text \<open>
  Claim C6, as amended: the driver does not check the tile size. Every launch of
  \<open>MatrixMultiply\<close> uses blocks of \<open>block_size\<close> by \<open>block_size\<close> threads and the instance
  \<open>MatrixMulCUDA<16>\<close> when \<open>block_size\<close> is 16, \<open>MatrixMulCUDA<32>\<close> for every other value;
  \<open>main\<close> only ever passes the tile size 32.
\<close>

theorem tile_size_dispatch:
  "(Launch cfg \<in> set (fst (MatrixMultiply env block_size dimsA dimsB)) \<longrightarrow>
      cfg = launch_config block_size dimsA dimsB \<and>
      BLOCK_SIZE cfg = (if block_size = 16 then 16 else 32) \<and>
      blockDim cfg = (block_size, block_size)) \<and>
   (Launch cfg \<in> set (fst (main env a)) \<longrightarrow> BLOCK_SIZE cfg = 32 \<and> blockDim cfg = (32, 32))"
proof (intro conjI impI)
  assume l: "Launch cfg \<in> set (fst (MatrixMultiply env block_size dimsA dimsB))"
  have "list_all (\<lambda>e. case e of Launch c \<Rightarrow> c = launch_config block_size dimsA dimsB | _ \<Rightarrow> True)
     (fst (MatrixMultiply env block_size dimsA dimsB))"
    by (rule MatrixMultiply_events) (simp_all add: housekeeping_def)
  from Launch_in_events [OF this l] show c: "cfg = launch_config block_size dimsA dimsB" .
  show "BLOCK_SIZE cfg = (if block_size = 16 then 16 else 32)" by (simp add: c launch_config_def)
  show "blockDim cfg = (block_size, block_size)" by (simp add: c launch_config_def)
next
  assume l: "Launch cfg \<in> set (fst (main env a))"
  have "list_all (\<lambda>e. case e of Launch c \<Rightarrow> c = launch_config 32 (fst (configured a)) (snd (configured a)) | _ \<Rightarrow> True)
     (fst (main env a))"
    by (rule main_events) (simp_all add: housekeeping_def)
  from Launch_in_events [OF this l]
  have c: "cfg = launch_config 32 (fst (configured a)) (snd (configured a))" .
  show "BLOCK_SIZE cfg = 32" by (simp add: c launch_config_def)
  show "blockDim cfg = (32, 32)" by (simp add: c launch_config_def)
qed

theorem tile_size_dispatch_witness:
  "Launch (launch_config 32 (32, 32) (32, 32)) \<in> set (fst (MatrixMultiply env0 32 (32, 32) (32, 32))) \<and>
   Launch (launch_config 32 (32, 32) (32, 32)) \<in> set (fst (main env0 args32)) \<and>
   BLOCK_SIZE (launch_config 32 (32, 32) (32, 32)) = 32 \<and>
   blockDim (launch_config 32 (32, 32) (32, 32)) = (32, 32)"
proof -
  have 1: "Launch (launch_config 32 (32, 32) (32, 32)) \<in> set (fst (MatrixMultiply env0 32 (32, 32) (32, 32)))"
    by (rule launch_reached [OF all_ok_env0 in_range_32]) simp
  have f: "\<not> flag_help args32" "findCudaDevice env0 = None"
    by (simp_all add: env0_def args32_def)
  have "set (fst (MatrixMultiply env0 32 (32, 32) (32, 32))) \<subseteq> set (fst (main env0 args32))"
    by (rule main_trace [OF f configured_args32]) simp
  then have 2: "Launch (launch_config 32 (32, 32) (32, 32)) \<in> set (fst (main env0 args32))"
    using 1 by blast
  from tile_size_dispatch [of "launch_config 32 (32, 32) (32, 32)" env0 32 "(32, 32)" "(32, 32)" args32] 1 2
  show ?thesis by simp
qed

text \<open>
  Claim C7: a failed host allocation is detected at once, reported, and ends the process
  with the failure code. The code does so for \<open>h_C\<close> only. When \<open>malloc\<close> fails for \<open>h_A\<close>, or
  for \<open>h_B\<close>, nothing is reported and nothing exits: \<open>ConstantInit\<close> writes through the
  \<open>NULL\<close> pointer.
\<close>

theorem host_allocation_failure_unchecked:
  "MatrixMultiply (env\<lparr>malloc_ok := \<lambda>b. b \<noteq> h_A\<rparr>) 32 (32, 32) (32, 32) =
     ([Malloc h_A 4096 False, Malloc h_B 4096 True], Inl Undefined) \<and>
   MatrixMultiply (env\<lparr>malloc_ok := \<lambda>b. b \<noteq> h_B\<rparr>) 32 (32, 32) (32, 32) =
     ([Malloc h_A 4096 True, Malloc h_B 4096 False], Inl Undefined) \<and>
   MatrixMultiply (env\<lparr>malloc_ok := \<lambda>b. b \<noteq> h_C\<rparr>) 32 (32, 32) (32, 32) =
     ([Malloc h_A 4096 True, Malloc h_B 4096 True, Malloc h_C 4096 False,
       Printf ''Failed to allocate host matrix C!''], Inl (Exited EXIT_FAILURE))"
  by (simp add: MatrixMultiply_def compute_def host_setup_no_C seq_Inl)
    (simp add: host_setup_def Let_def u32_def to_int_def mem_size_def malloc_def
      ConstantInit_eq fresh_def seq_Inl)

text \<open>
  Claim C8 as stated fails on the early exit of lines 103 to 106: when the allocation of
  \<open>h_C\<close> fails the process exits with \<open>h_A\<close> and \<open>h_B\<close> allocated and not released.
\<close>

theorem early_exit_leaks_host_buffers:
  "MatrixMultiply (env0\<lparr>malloc_ok := \<lambda>b. b \<noteq> h_C\<rparr>) 32 (32, 32) (32, 32) =
     ([Malloc h_A 4096 True, Malloc h_B 4096 True, Malloc h_C 4096 False,
       Printf ''Failed to allocate host matrix C!''], Inl (Exited EXIT_FAILURE)) \<and>
   unreleased [Malloc h_A 4096 True, Malloc h_B 4096 True, Malloc h_C 4096 False,
       Printf ''Failed to allocate host matrix C!''] = [h_A, h_B]"
  by (simp add: MatrixMultiply_def compute_def host_setup_no_C seq_Inl unreleased_def)

text \<open>
  Claim C8, as amended: when \<open>MatrixMultiply\<close> returns, every buffer it allocated, on the
  host and on the device, has been released; when the allocation of \<open>h_C\<close> fails, the
  process exits with the failure code and with \<open>h_A\<close> and \<open>h_B\<close>, whichever was allocated,
  not released.
\<close>

theorem buffers_released_on_return:
  "(MatrixMultiply env block_size dimsA dimsB = (tr, Inr c) \<longrightarrow> unreleased tr = []) \<and>
   (MatrixMultiply env block_size dimsA dimsB = (tr, Inl (Exited c)) \<and> \<not> malloc_ok env h_C \<longrightarrow>
      c = EXIT_FAILURE \<and> unreleased tr = filter (malloc_ok env) [h_A, h_B])"
proof (intro conjI impI)
  assume "MatrixMultiply env block_size dimsA dimsB = (tr, Inr c)"
  then obtain tr1 tr2 where
    "tr = tr1 @ tr2 @ [Free h_A, Free h_B, Free h_C, Cuda (cudaFree d_A) True,
      Cuda (cudaFree d_B) True, Cuda (cudaFree d_C) True,
      Printf ''NOTE: The CUDA Samples are not meant for performance measurements.'']"
    by (auto simp: MatrixMultiply_Inr cleanup_Inr)
  then show "unreleased tr = []"
    by (simp only: unreleased_def foldl_append unreleased_after_cleanup)
next
  assume a: "MatrixMultiply env block_size dimsA dimsB = (tr, Inl (Exited c)) \<and> \<not> malloc_ok env h_C"
  obtain t r where h: "host_setup env dimsA dimsB = (t, r)" by (cases "host_setup env dimsA dimsB")
  from a h have nr: "\<And>x. r \<noteq> Inr x"
    by (auto simp: host_setup_def Let_def split: option.splits)
  then obtain out where r: "r = Inl out" by (cases r) auto
  have "MatrixMultiply env block_size dimsA dimsB = (t, Inl out)"
    by (simp add: MatrixMultiply_def compute_def h r seq_Inl)
  with a have t: "t = tr" and out: "out = Exited c" by simp_all
  from host_setup_without_C [OF _ h] a r out
  show "c = EXIT_FAILURE" and "unreleased tr = filter (malloc_ok env) [h_A, h_B]"
    by (simp_all add: t)
qed

theorem buffers_released_on_return_witness:
  "(\<exists>tr. MatrixMultiply env0 32 (32, 32) (32, 32) = (tr, Inr EXIT_SUCCESS) \<and> unreleased tr = []) \<and>
   (\<exists>tr. MatrixMultiply (env0\<lparr>malloc_ok := \<lambda>b. b \<noteq> h_C\<rparr>) 32 (32, 32) (32, 32) =
       (tr, Inl (Exited EXIT_FAILURE)) \<and>
     \<not> malloc_ok (env0\<lparr>malloc_ok := \<lambda>b. b \<noteq> h_C\<rparr>) h_C \<and> unreleased tr = [h_A, h_B])"
proof
  from env0_passes(1) obtain tr
    where run: "MatrixMultiply env0 32 (32, 32) (32, 32) = (tr, Inr EXIT_SUCCESS)" by blast
  from buffers_released_on_return [of env0 32 "(32, 32)" "(32, 32)" tr EXIT_SUCCESS] run
  show "\<exists>tr. MatrixMultiply env0 32 (32, 32) (32, 32) = (tr, Inr EXIT_SUCCESS) \<and> unreleased tr = []"
    by blast
next
  let ?env = "env0\<lparr>malloc_ok := \<lambda>b. b \<noteq> h_C\<rparr>"
  let ?tr = "[Malloc h_A 4096 True, Malloc h_B 4096 True, Malloc h_C 4096 False,
       Printf ''Failed to allocate host matrix C!'']"
  have run: "MatrixMultiply ?env 32 (32, 32) (32, 32) = (?tr, Inl (Exited EXIT_FAILURE))"
    by (simp add: MatrixMultiply_def compute_def host_setup_no_C seq_Inl)
  from buffers_released_on_return [of ?env 32 "(32, 32)" "(32, 32)" ?tr EXIT_FAILURE] run
  show "\<exists>tr. MatrixMultiply ?env 32 (32, 32) (32, 32) = (tr, Inl (Exited EXIT_FAILURE)) \<and>
     \<not> malloc_ok ?env h_C \<and> unreleased tr = [h_A, h_B]"
    by simp
qed




text \<open>
  Claim C10 asks that two runs on identical inputs give identical outputs. For
  \<open>wA = hB = 32\<close> and \<open>hA = wB = 64\<close> thread \<open>(0, 0)\<close> of block \<open>(0, 1)\<close> and thread \<open>(0, 31)\<close> of
  block \<open>(1, 0)\<close> both store to \<open>C[1024]\<close>, the first the value 1 and the second the value 0:
  of two schedules of the same launch, on the same inputs, one leaves 1 there and the
  other leaves 0.
\<close>

theorem store_race_on_C:
  "schedule race32 (last_to_store race32 ((0, 1), (0, 0))) \<and>
   schedule race32 (last_to_store race32 ((1, 0), (0, 31))) \<and>
   map_option (\<lambda>C. C ! 1024)
     (kernel_launch race32 A_r B_r (last_to_store race32 ((0, 1), (0, 0))) (replicate 4096 0)) = Some 1 \<and>
   map_option (\<lambda>C. C ! 1024)
     (kernel_launch race32 A_r B_r (last_to_store race32 ((1, 0), (0, 31))) (replicate 4096 0)) = Some 0"
proof -
  have m1: "((0, 1), (0, 0)) \<in> set (grid_threads race32)"
    and m2: "((1, 0), (0, 31)) \<in> set (grid_threads race32)"
    by (simp_all add: grid_threads_def set_block_threads race32_def)
  have w: "wA race32 \<le> 64" by (simp add: race32_def)
  have lA: "length A_r = wA race32 * 64" and lB: "length B_r = 64 * wA race32"
    by (simp_all add: A_r_def B_r_def race32_def)
  have lC: "length (replicate 4096 (0::int)) = 64 * 64" by simp
  have i1: "C_index race32 (0, 1) (0, 0) = 1024" and i2: "C_index race32 (1, 0) (0, 31) = 1024"
    by (simp_all add: C_index_def row_def col_def race32_def)
  have r1: "map_option (\<lambda>C. C ! 1024)
     (kernel_launch race32 A_r B_r (last_to_store race32 ((0, 1), (0, 0))) (replicate 4096 0)) = Some 1"
    using kernel_launch_last_to_store [OF tiled_race32 w lA lB lC m1]
    unfolding fst_conv snd_conv i1 race_values .
  have r2: "map_option (\<lambda>C. C ! 1024)
     (kernel_launch race32 A_r B_r (last_to_store race32 ((1, 0), (0, 31))) (replicate 4096 0)) = Some 0"
    using kernel_launch_last_to_store [OF tiled_race32 w lA lB lC m2]
    unfolding fst_conv snd_conv i2 race_values .
  show ?thesis
    using r1 r2 schedule_last_to_store [OF m1] schedule_last_to_store [OF m2] by blast
qed

end
